theory Spec2Isabelle
  imports Main "HOL-Library.Sublist"
begin

section \<open>The world the benchmark driver acts on\<close>

text \<open>
  The driver of \<^verbatim>\<open>cmd/simple-db-bench/main.go\<close> talks to three things: the console,
  the bench handle \<^verbatim>\<open>b\<close> (type \<^verbatim>\<open>bencher\<close>, declared in another file of the package),
  and the Go runtime (goroutines and channels). Every such interaction is recorded as an
  event, in the program order of the goroutine that performs it.
\<close>

type_synonym chan = nat   \<comment> \<open>a channel is named by its index in the channel store\<close>

datatype gofunc =
    Daemon       \<comment> \<open>the function literal of \<^verbatim>\<open>startCompaction\<close>\<close>
  | Worker int   \<comment> \<open>the function literal of a fan-out, applied to \<^verbatim>\<open>tid\<close>\<close>

datatype val = VBool bool | VInt int

datatype event =
    NewBenchEv string int   \<comment> \<open>\<^verbatim>\<open>newBench(conf, name, par)\<close>\<close>
  | FillEv                  \<comment> \<open>\<^verbatim>\<open>b.Fill()\<close>\<close>
  | ResetEv                 \<comment> \<open>\<^verbatim>\<open>b.Reset()\<close>\<close>
  | CompactEv               \<comment> \<open>\<^verbatim>\<open>b.Compact()\<close>\<close>
  | WriteEv int             \<comment> \<open>\<^verbatim>\<open>b.Write(tid)\<close>\<close>
  | ReadEv int              \<comment> \<open>\<^verbatim>\<open>b.Read(tid)\<close>\<close>
  | FinishOpEv int          \<comment> \<open>\<^verbatim>\<open>b.finishOp(tid, outcome)\<close>\<close>
  | FinishEv                \<comment> \<open>\<^verbatim>\<open>b.finish()\<close>\<close>
  | StopEv                  \<comment> \<open>\<^verbatim>\<open>b.stop()\<close>\<close>
  | PrintEv string          \<comment> \<open>one line on standard output\<close>
  | GoEv gofunc             \<comment> \<open>a \<^verbatim>\<open>go\<close> statement and the function it starts\<close>
  | SendEv chan val         \<comment> \<open>a channel send\<close>
  | RecvEv chan val         \<comment> \<open>a completed channel receive\<close>
  | SysEv string            \<comment> \<open>a call of the profiling runtime\<close>
  | LogFatalEv string       \<comment> \<open>the message with which the process ends (\<^verbatim>\<open>log.Fatal\<close>, panic)\<close>

text \<open>
  Goroutines are kept apart: each one has its own trace, in its own program order. A
  \<^verbatim>\<open>go\<close> statement runs the new goroutine's function on an empty trace and files
  the trace it produces under \<open>goroutines\<close>; what the goroutine sends waits in the channel
  store until it is received. A receive that finds nothing to receive blocks: the \<open>blocked\<close>
  flag is raised and the goroutine does nothing from then on. The order of events of
  different goroutines is not recorded here; the two protocols that depend on it (the
  compaction daemon's handshake and the fan-out join) are studied on interleaving models
  further down.
\<close>

record world =
  trace :: "event list"            \<comment> \<open>what this goroutine has done so far, oldest first\<close>
  finishedFlag :: bool             \<comment> \<open>the latch of the live bench handle\<close>
  goroutines :: "event list list"  \<comment> \<open>the traces of the goroutines started, in start order\<close>
  chans :: "val list list"         \<comment> \<open>per channel, the values sent and not yet received\<close>
  blocked :: bool                  \<comment> \<open>this goroutine waits forever on a receive\<close>

definition w0 :: world where
  "w0 = \<lparr>trace = [], finishedFlag = False, goroutines = [], chans = [], blocked = False\<rparr>"

definition emit :: "event \<Rightarrow> world \<Rightarrow> world" where
  "emit e w = (if blocked w then w else w\<lparr>trace := trace w @ [e]\<rparr>)"

subsection \<open>Machine integers\<close>

text \<open>
  Go's \<^verbatim>\<open>int\<close> is 64 bits wide on the platforms the benchmark targets; arithmetic wraps
  around in two's complement. The flags \<^verbatim>\<open>kiters\<close> and \<^verbatim>\<open>par\<close> are parsed into that
  range. Only the product \<^verbatim>\<open>1000*kiters\<close> can leave it; the loop counters stay
  below their bounds.
\<close>

definition int64 :: "int \<Rightarrow> int" where
  "int64 x = (x + 2 ^ 63) mod 2 ^ 64 - 2 ^ 63"

subsection \<open>Loops\<close>

text \<open>\<^verbatim>\<open>for i := lo; i < n; i++ { body }\<close>, the only loop form of the file.\<close>

function forLoop :: "int \<Rightarrow> int \<Rightarrow> (int \<Rightarrow> 's \<Rightarrow> 's) \<Rightarrow> 's \<Rightarrow> 's" where
  "forLoop i n body s = (if i < n then forLoop (i + 1) n body (body i s) else s)"
  by pat_completeness auto
termination
  by (relation "measure (\<lambda>(i, n, body, s). nat (n - i))") auto

declare forLoop.simps [simp del]

subsection \<open>Console and runtime primitives\<close>

fun digits :: "nat \<Rightarrow> string" where
  "digits n = (if n < 10 then [''0123456789'' ! n]
               else digits (n div 10) @ [''0123456789'' ! (n mod 10)])"

declare digits.simps [simp del]

definition itoa :: "int \<Rightarrow> string" where  \<comment> \<open>the verb \<^verbatim>\<open>%d\<close>\<close>
  "itoa i = (if i < 0 then CHR ''-'' # digits (nat (- i)) else digits (nat i))"

definition Println :: "string \<Rightarrow> world \<Rightarrow> world" where
  "Println s = emit (PrintEv s)"

definition make_chan :: "world \<Rightarrow> chan \<times> world" where
  "make_chan w = (length (chans w), w\<lparr>chans := chans w @ [[]]\<rparr>)"

definition send :: "chan \<Rightarrow> val \<Rightarrow> world \<Rightarrow> world" where
  "send c v w =
     (if blocked w \<or> \<not> c < length (chans w) then w
      else w\<lparr>trace := trace w @ [SendEv c v], chans := (chans w)[c := chans w ! c @ [v]]\<rparr>)"

definition recv :: "chan \<Rightarrow> world \<Rightarrow> val \<times> world" where
  "recv c w =
     (if blocked w then (VInt 0, w)
      else if \<not> c < length (chans w) then (VInt 0, w\<lparr>blocked := True\<rparr>)
      else case chans w ! c of
             [] \<Rightarrow> (VInt 0, w\<lparr>blocked := True\<rparr>)
           | v # vs \<Rightarrow> (v, w\<lparr>trace := trace w @ [RecvEv c v], chans := (chans w)[c := vs]\<rparr>))"

definition go :: "gofunc \<Rightarrow> (world \<Rightarrow> world) \<Rightarrow> world \<Rightarrow> world" where
  "go l g w =
     (if blocked w then w
      else let r = g (w\<lparr>trace := []\<rparr>)
           in w\<lparr>trace := trace w @ [GoEv l],
                goroutines := goroutines w @ [trace r],
                chans := chans r\<rparr>)"

fun the_int :: "val \<Rightarrow> int" where
  "the_int (VInt n) = n"
| "the_int (VBool b) = 0"

section \<open>The run configuration\<close>

text \<open>
  \<^verbatim>\<open>BenchFilter\<close> is a compiled regular expression of Go's standard library, used only
  through \<^verbatim>\<open>MatchString\<close>: the configuration holds the predicate it decides.
\<close>

record config =
  DatabaseDir :: string
  DatabaseSize :: int
  BenchFilter :: "string \<Rightarrow> bool"
  ListBenches :: bool

section \<open>The bench handle\<close>

text \<open>
  The type \<^verbatim>\<open>bencher\<close> and its methods are declared in another file of the package, which
  is not at hand. The definitions of this section follow the specification's Bench Handle:
  a handle holds a \<open>finishedFlag\<close>, is built unfinished, and is finished by \<^verbatim>\<open>finish\<close>.
  The engine operations are opaque calls: the model records that they were made, in which
  order and for which worker id, and nothing of what the engine does.
\<close>

type_synonym outcome = unit

text \<open>Modelled from the spec: \<^verbatim>\<open>newBench\<close> is missing; it builds a fresh, unfinished handle.\<close>

definition newBench :: "config \<Rightarrow> string \<Rightarrow> int \<Rightarrow> world \<Rightarrow> world" where
  "newBench conf name par w =
     (if blocked w then w else emit (NewBenchEv name par) (w\<lparr>finishedFlag := False\<rparr>))"

text \<open>Modelled from the spec: \<^verbatim>\<open>IsFinished\<close> is missing; it reads the handle's latch.\<close>

definition IsFinished :: "world \<Rightarrow> bool" where
  "IsFinished w = finishedFlag w"

text \<open>
  Modelled from the spec: \<^verbatim>\<open>finish\<close> is missing; it closes the timing window, prints the
  summary (both stand behind the event) and raises the latch.
\<close>

definition finish :: "world \<Rightarrow> world" where
  "finish w = (if blocked w then w else emit FinishEv (w\<lparr>finishedFlag := True\<rparr>))"

text \<open>Modelled from the spec: \<^verbatim>\<open>stop\<close> is missing; it releases the handle.\<close>

definition stop :: "world \<Rightarrow> world" where
  "stop = emit StopEv"

text \<open>Modelled from the spec: \<^verbatim>\<open>Fill\<close> is missing; it populates the engine.\<close>

definition Fill :: "world \<Rightarrow> world" where
  "Fill = emit FillEv"

text \<open>Modelled from the spec: \<^verbatim>\<open>Reset\<close> is missing; it resets timing and counters.\<close>

definition Reset :: "world \<Rightarrow> world" where
  "Reset = emit ResetEv"

text \<open>Modelled from the spec: \<^verbatim>\<open>Compact\<close> is missing; it runs one compaction pass.\<close>

definition Compact :: "world \<Rightarrow> world" where
  "Compact = emit CompactEv"

text \<open>
  Modelled from the spec: \<^verbatim>\<open>Write\<close> is missing; it performs one write for worker
  \<open>tid\<close> and returns its outcome.
\<close>

definition Write :: "int \<Rightarrow> world \<Rightarrow> outcome \<times> world" where
  "Write tid w = ((), emit (WriteEv tid) w)"

text \<open>
  Modelled from the spec: \<^verbatim>\<open>Read\<close> is missing; it performs one read for worker
  \<open>tid\<close> and returns its outcome.
\<close>

definition Read :: "int \<Rightarrow> world \<Rightarrow> outcome \<times> world" where
  "Read tid w = ((), emit (ReadEv tid) w)"

text \<open>
  Modelled from the spec: \<^verbatim>\<open>finishOp\<close> is missing; it records the outcome of one
  operation of worker \<open>tid\<close>.
\<close>

definition finishOp :: "int \<Rightarrow> outcome \<Rightarrow> world \<Rightarrow> world" where
  "finishOp tid r = emit (FinishOpEv tid)"

section \<open>The dispatcher\<close>

definition runBench :: "config \<Rightarrow> string \<Rightarrow> int \<Rightarrow> (world \<Rightarrow> world) \<Rightarrow> world \<Rightarrow> world" where
  "runBench conf name par f w =
     (if \<not> BenchFilter conf name then w
      else if ListBenches conf then Println name w
      else let b = newBench conf name par w;
               b = f b;
               b = (if \<not> IsFinished b then finish b else b)
           in stop b)"

section \<open>The compaction daemon, seen from its own goroutine\<close>

text \<open>
  The daemon's loop polls its channel with a \<^verbatim>\<open>select\<close> that has a default branch. Which
  branch is taken depends on whether the caller already waits in its receive, that is on
  the scheduler: the number \<open>k\<close> of polls that find nobody waiting is an input of the model.
  Each such poll runs one compaction to its end and counts it; the poll that finds the
  caller waiting hands the count over and ends the goroutine. The counter is a Go
  \<^verbatim>\<open>int\<close>: its increment wraps around.
\<close>

fun daemon_loop :: "nat \<Rightarrow> chan \<Rightarrow> int \<Rightarrow> world \<Rightarrow> world" where
  "daemon_loop 0 done numCompactions w = send done (VInt numCompactions) w"
| "daemon_loop (Suc k) done numCompactions w =
     (let w = Compact w in daemon_loop k done (int64 (numCompactions + 1)) w)"

definition startCompaction :: "nat \<Rightarrow> world \<Rightarrow> chan \<times> world" where
  "startCompaction k w =
     (let (done, w) = make_chan w;
          numCompactions = 0;
          w = go Daemon (daemon_loop k done numCompactions) w
      in (done, w))"

section \<open>The benchmark bodies of \<^verbatim>\<open>main\<close>\<close>

definition writeOp :: "int \<Rightarrow> world \<Rightarrow> world" where  \<comment> \<open>\<^verbatim>\<open>b.finishOp(tid, b.Write(tid))\<close>\<close>
  "writeOp tid b = (let (r, b) = Write tid b in finishOp tid r b)"

definition readOp :: "int \<Rightarrow> world \<Rightarrow> world" where  \<comment> \<open>\<^verbatim>\<open>b.finishOp(tid, b.Read(tid))\<close>\<close>
  "readOp tid b = (let (r, b) = Read tid b in finishOp tid r b)"

definition worker :: "int \<Rightarrow> chan \<Rightarrow> int \<Rightarrow> world \<Rightarrow> world" where
  "worker kiters done tid b =
     (let b = forLoop 0 (int64 (1000 * kiters)) (\<lambda>i. readOp tid) b
      in send done (VBool True) b)"

definition fanout :: "int \<Rightarrow> int \<Rightarrow> chan \<Rightarrow> world \<Rightarrow> world" where
  "fanout kiters par done b =
     forLoop 0 par (\<lambda>tid. go (Worker tid) (worker kiters done tid)) b"

definition join :: "int \<Rightarrow> chan \<Rightarrow> world \<Rightarrow> world" where
  "join par done b = forLoop 0 par (\<lambda>tid b. snd (recv done b)) b"

definition printCompactions :: "val \<Rightarrow> world \<Rightarrow> world" where
  "printCompactions numCompactions =
     Println (''  finished '' @ itoa (the_int numCompactions) @ '' compactions'')"

definition body_writes :: "int \<Rightarrow> world \<Rightarrow> world" where
  "body_writes kiters b =
     (let b = forLoop 0 (int64 (1000 * kiters)) (\<lambda>i. writeOp 0) b
      in Compact b)"

definition body_write_compact :: "nat \<Rightarrow> int \<Rightarrow> world \<Rightarrow> world" where
  "body_write_compact k kiters b =
     (let b = Fill b;
          b = Reset b;
          (stopCompaction, b) = startCompaction k b;
          b = forLoop 0 (int64 (1000 * kiters)) (\<lambda>i. writeOp 0) b;
          b = finish b;
          (numCompactions, b) = recv stopCompaction b
      in printCompactions numCompactions b)"

definition body_rbuf_reads :: "int \<Rightarrow> world \<Rightarrow> world" where
  "body_rbuf_reads kiters b =
     (let b = Fill b;
          b = Reset b
      in forLoop 0 (int64 (1000 * kiters)) (\<lambda>i. readOp 0) b)"

definition body_table_reads :: "int \<Rightarrow> world \<Rightarrow> world" where
  "body_table_reads kiters b =
     (let b = Fill b;
          b = Compact b;
          b = Compact b;
          b = Reset b
      in forLoop 0 (int64 (1000 * kiters)) (\<lambda>i. readOp 0) b)"

definition body_table_reads_par :: "int \<Rightarrow> int \<Rightarrow> world \<Rightarrow> world" where
  "body_table_reads_par kiters par b =
     (let b = Fill b;
          b = Compact b;
          b = Compact b;
          b = Reset b;
          (done, b) = make_chan b;
          b = fanout kiters par done b
      in join par done b)"

definition body_rbuf_reads_par :: "int \<Rightarrow> int \<Rightarrow> world \<Rightarrow> world" where
  "body_rbuf_reads_par kiters par b =
     (let b = Fill b;
          b = Compact b;
          b = Reset b;
          (done, b) = make_chan b;
          b = fanout kiters par done b
      in join par done b)"

definition body_read_par_compact :: "nat \<Rightarrow> int \<Rightarrow> int \<Rightarrow> world \<Rightarrow> world" where
  "body_read_par_compact k kiters par b =
     (let b = Fill b;
          b = Compact b;
          b = Reset b;
          (stopCompaction, b) = startCompaction k b;
          (done, b) = make_chan b;
          b = fanout kiters par done b;
          b = join par done b;
          b = finish b;
          (numCompactions, b) = recv stopCompaction b
      in printCompactions numCompactions b)"

section \<open>Regular expressions\<close>

text \<open>
  Package \<^verbatim>\<open>regexp\<close> belongs to Go's standard library, not to the repository, so
  \<^verbatim>\<open>main\<close> below takes \<^verbatim>\<open>regexp.Compile\<close> as a parameter. This section gives one
  instance of that parameter, after the library's documentation, for the patterns built
  from literal characters, \<^verbatim>\<open>.\<close>, the postfix operators \<^verbatim>\<open>*\<close>, \<^verbatim>\<open>+\<close> and \<^verbatim>\<open>?\<close>
  (each optionally followed by the non-greedy mark \<^verbatim>\<open>?\<close>), alternation and plain groups.
  Patterns that use anything else of the syntax (escapes, classes, counted repetition,
  anchors, group flags) are outside the instance, which reports them as unsupported. An
  error is reported by its code; the offending fragment that the library appends to the
  message is left out. \<^verbatim>\<open>MatchString\<close> reports whether the string contains any match
  of the expression.
\<close>

datatype regexp =
    NoMatch | Empty | Lit char | AnyChar
  | Cat regexp regexp | Alt regexp regexp
  | Star regexp | Plus regexp | Quest regexp

fun nullable :: "regexp \<Rightarrow> bool" where
  "nullable NoMatch = False"
| "nullable Empty = True"
| "nullable (Lit c) = False"
| "nullable AnyChar = False"
| "nullable (Cat r s) = (nullable r \<and> nullable s)"
| "nullable (Alt r s) = (nullable r \<or> nullable s)"
| "nullable (Star r) = True"
| "nullable (Plus r) = nullable r"
| "nullable (Quest r) = True"

fun deriv :: "char \<Rightarrow> regexp \<Rightarrow> regexp" where
  "deriv c NoMatch = NoMatch"
| "deriv c Empty = NoMatch"
| "deriv c (Lit d) = (if c = d then Empty else NoMatch)"
| "deriv c AnyChar = (if c = CHR 0x0A then NoMatch else Empty)"
| "deriv c (Cat r s) =
     (if nullable r then Alt (Cat (deriv c r) s) (deriv c s) else Cat (deriv c r) s)"
| "deriv c (Alt r s) = Alt (deriv c r) (deriv c s)"
| "deriv c (Star r) = Cat (deriv c r) (Star r)"
| "deriv c (Plus r) = Cat (deriv c r) (Star r)"
| "deriv c (Quest r) = deriv c r"

definition fullmatch :: "regexp \<Rightarrow> string \<Rightarrow> bool" where
  "fullmatch r s = nullable (fold deriv s r)"

definition MatchString :: "regexp \<Rightarrow> string \<Rightarrow> bool" where
  "MatchString r s = list_ex (fullmatch r) (sublists s)"

text \<open>
  What an expression matches as a whole is a set of strings; the matcher above decides
  membership in it (lemma \<open>fullmatch_lang\<close> below).
\<close>

definition conc :: "string set \<Rightarrow> string set \<Rightarrow> string set" where
  "conc A B = {u @ v | u v. u \<in> A \<and> v \<in> B}"

inductive_set star :: "string set \<Rightarrow> string set" for A :: "string set" where
  star_Nil: "[] \<in> star A"
| star_step: "u \<in> A \<Longrightarrow> v \<in> star A \<Longrightarrow> u @ v \<in> star A"

fun lang :: "regexp \<Rightarrow> string set" where
  "lang NoMatch = {}"
| "lang Empty = {[]}"
| "lang (Lit c) = {[c]}"
| "lang AnyChar = {[c] | c. c \<noteq> CHR 0x0A}"
| "lang (Cat r s) = conc (lang r) (lang s)"
| "lang (Alt r s) = lang r \<union> lang s"
| "lang (Star r) = star (lang r)"
| "lang (Plus r) = conc (lang r) (star (lang r))"
| "lang (Quest r) = insert [] (lang r)"

type_synonym frame = "regexp list \<times> regexp list"

fun mkCat :: "regexp list \<Rightarrow> regexp" where
  "mkCat [] = Empty"
| "mkCat [r] = r"
| "mkCat (r # rs) = Cat r (mkCat rs)"

fun mkAlt :: "regexp list \<Rightarrow> regexp" where
  "mkAlt [] = NoMatch"
| "mkAlt [r] = r"
| "mkAlt (r # rs) = Alt r (mkAlt rs)"

definition closeFrame :: "frame \<Rightarrow> regexp" where
  "closeFrame fr = mkAlt (fst fr @ [mkCat (snd fr)])"

definition repeatOp :: "char \<Rightarrow> regexp \<Rightarrow> regexp" where
  "repeatOp c r = (if c = CHR ''*'' then Star r else if c = CHR ''+'' then Plus r else Quest r)"

definition skipLazy :: "string \<Rightarrow> string" where
  "skipLazy cs = (case cs of [] \<Rightarrow> [] | c # t \<Rightarrow> if c = CHR ''?'' then t else cs)"

definition unsupported :: "char \<Rightarrow> string \<Rightarrow> bool" where
  "unsupported c cs =
     (c \<in> {CHR 0x5C, CHR ''['', CHR ''{'', CHR ''^'', CHR ''$''} \<or>
      (c = CHR ''('' \<and> (case cs of [] \<Rightarrow> False | d # t \<Rightarrow> d = CHR ''?'')))"

function parse :: "frame list \<Rightarrow> frame \<Rightarrow> bool \<Rightarrow> string \<Rightarrow> string + regexp" where
  "parse stk fr lastRepeat [] =
     (if stk = [] then Inr (closeFrame fr) else Inl ''missing closing )'')"
| "parse stk fr lastRepeat (c # cs) =
     (if unsupported c cs then Inl ''unsupported by the model''
      else if c = CHR ''('' then parse (fr # stk) ([], []) False cs
      else if c = CHR '')'' then
        (case stk of
           [] \<Rightarrow> Inl ''unexpected )''
         | up # stk' \<Rightarrow> parse stk' (fst up, snd up @ [closeFrame fr]) False cs)
      else if c = CHR ''|'' then parse stk (fst fr @ [mkCat (snd fr)], []) False cs
      else if c \<in> {CHR ''*'', CHR ''+'', CHR ''?''} then
        (if lastRepeat then Inl ''invalid nested repetition operator''
         else if snd fr = [] then Inl ''missing argument to repetition operator''
         else parse stk (fst fr, butlast (snd fr) @ [repeatOp c (last (snd fr))]) True
                (skipLazy cs))
      else if c = CHR ''.'' then parse stk (fst fr, snd fr @ [AnyChar]) False cs
      else parse stk (fst fr, snd fr @ [Lit c]) False cs)"
  by pat_completeness auto
termination
  by (relation "measure (\<lambda>(stk, fr, lastRepeat, s). length s)")
     (auto simp: skipLazy_def split: list.splits)

declare parse.simps [simp del]

definition goCompile :: "string \<Rightarrow> string + (string \<Rightarrow> bool)" where
  "goCompile expr =
     (case parse [] ([], []) False expr of
        Inl e \<Rightarrow> Inl (''error parsing regexp: '' @ e)
      | Inr re \<Rightarrow> Inr (MatchString re))"

section \<open>The program\<close>

text \<open>
  What \<^verbatim>\<open>main\<close> takes from outside: the command line, already parsed by package
  \<^verbatim>\<open>flag\<close>, and the environment, that is the library and system calls whose results
  the file branches on, with the scheduler's decisions for the two compaction daemons.
\<close>

record flags =
  dir_flag :: string
  size_flag :: int
  list_flag :: bool
  run_flag :: string
  kiters_flag :: int
  par_flag :: int
  cpuprofile_flag :: string
  memprofile_flag :: string

record env =
  regexp_Compile :: "string \<Rightarrow> string + (string \<Rightarrow> bool)"
  os_Create :: "string \<Rightarrow> bool"        \<comment> \<open>whether the file can be created\<close>
  pprof_StartCPUProfile :: bool         \<comment> \<open>whether the call succeeds\<close>
  pprof_WriteHeapProfile :: bool        \<comment> \<open>whether the call succeeds\<close>
  polls1 :: nat   \<comment> \<open>idle polls of the daemon of "write + compact"\<close>
  polls2 :: nat   \<comment> \<open>idle polls of the daemon of "read par + compact"\<close>

datatype exit = Returned | Fatal | Panic

definition runAll :: "config \<Rightarrow> int \<Rightarrow> int \<Rightarrow> nat \<Rightarrow> nat \<Rightarrow> world \<Rightarrow> world" where
  "runAll conf kiters par k1 k2 w =
     (let w = runBench conf ''writes'' 1 (body_writes kiters) w;
          w = runBench conf ''write + compact'' 1 (body_write_compact k1 kiters) w;
          w = runBench conf ''rbuf reads'' 1 (body_rbuf_reads kiters) w;
          w = runBench conf ''table reads'' 1 (body_table_reads kiters) w;
          w = runBench conf (''table reads (par='' @ itoa par @ '')'') par
                (body_table_reads_par kiters par) w;
          w = runBench conf (''rbuf reads (par='' @ itoa par @ '')'') par
                (body_rbuf_reads_par kiters par) w
      in runBench conf (''read par='' @ itoa par @ '' + compact'') par
           (body_read_par_compact k2 kiters par) w)"

text \<open>The same seven dispatches as a list, for statements about each of them.\<close>

definition benchmarks ::
    "int \<Rightarrow> int \<Rightarrow> nat \<Rightarrow> nat \<Rightarrow> (string \<times> int \<times> (world \<Rightarrow> world)) list" where
  "benchmarks kiters par k1 k2 =
     [(''writes'', 1, body_writes kiters),
      (''write + compact'', 1, body_write_compact k1 kiters),
      (''rbuf reads'', 1, body_rbuf_reads kiters),
      (''table reads'', 1, body_table_reads kiters),
      (''table reads (par='' @ itoa par @ '')'', par, body_table_reads_par kiters par),
      (''rbuf reads (par='' @ itoa par @ '')'', par, body_rbuf_reads_par kiters par),
      (''read par='' @ itoa par @ '' + compact'', par, body_read_par_compact k2 kiters par)]"

text \<open>Lines 93 to 101: the filter of the configuration.\<close>

definition compileFilter :: "env \<Rightarrow> string \<Rightarrow> exit \<times> string + (string \<Rightarrow> bool)" where
  "compileFilter e filterString =
     (if filterString = [] then
        (case regexp_Compile e ''.*'' of
           Inl err \<Rightarrow> Inl (Panic, ''regexp: Compile(.*): '' @ err)
         | Inr re \<Rightarrow> Inr re)
      else
        (case regexp_Compile e filterString of
           Inl err \<Rightarrow> Inl (Fatal, ''invalid BenchFilter '' @ filterString @ '': '' @ err)
         | Inr re \<Rightarrow> Inr re))"

definition writeMemProfile :: "env \<Rightarrow> string \<Rightarrow> world \<Rightarrow> exit \<times> world" where
  "writeMemProfile e fname w =
     (if \<not> os_Create e fname then
        (Fatal, emit (LogFatalEv ''could not create memory profile: '') w)
      else let w = emit (SysEv ''runtime.GC'') w in
        if \<not> pprof_WriteHeapProfile e then
          (Fatal, emit (LogFatalEv ''could not write memory profile: '') w)
        else (Returned, emit (SysEv ''pprof.WriteHeapProfile'') w))"

definition main :: "env \<Rightarrow> flags \<Rightarrow> exit \<times> world" where
  "main e fl =
     (case compileFilter e (run_flag fl) of
        Inl (x, msg) \<Rightarrow> (x, emit (LogFatalEv msg) w0)
      | Inr re \<Rightarrow>
          let conf = \<lparr>DatabaseDir = dir_flag fl, DatabaseSize = size_flag fl,
                      BenchFilter = re, ListBenches = list_flag fl\<rparr> in
          if cpuprofile_flag fl \<noteq> [] \<and> \<not> os_Create e (cpuprofile_flag fl) then
            (Fatal, emit (LogFatalEv ''could not create CPU profile: '') w0)
          else if cpuprofile_flag fl \<noteq> [] \<and> \<not> pprof_StartCPUProfile e then
            (Fatal, emit (LogFatalEv ''could not start CPU profile: '') w0)
          else
            let w = (if cpuprofile_flag fl \<noteq> [] then emit (SysEv ''pprof.StartCPUProfile'') w0
                     else w0);
                w = runAll conf (kiters_flag fl) (par_flag fl) (polls1 e) (polls2 e) w;
                (x, w) = (if memprofile_flag fl \<noteq> [] then writeMemProfile e (memprofile_flag fl) w
                          else (Returned, w))
            in if x = Returned \<and> cpuprofile_flag fl \<noteq> []
               then (x, emit (SysEv ''pprof.StopCPUProfile'') w) else (x, w))"

section \<open>The stop handshake of the compaction daemon, interleaved\<close>

text \<open>
  Two goroutines: the daemon of \<^verbatim>\<open>startCompaction\<close> and its caller. The daemon is at
  its \<^verbatim>\<open>select\<close> (line 47), inside \<^verbatim>\<open>b.Compact()\<close> (line 51), about to increment
  (line 52), or has returned (line 49). The caller has not reached its receive yet, waits
  in it, or has received a value. A step is one move of one goroutine; a schedule says who
  moves. The send of the \<^verbatim>\<open>select\<close> can proceed only while the caller waits, and is then
  the branch taken; otherwise the default branch runs. The counter is a local of the
  daemon, a Go \<^verbatim>\<open>int\<close> whose increment wraps around.
\<close>

datatype dpc = AtSelect | InCompact | AtIncrement | DaemonReturned

datatype cpc = NotYet | Waiting | Got int

datatype devent = CompactBegin | CompactEnd | Handshake int

datatype dwho = TheDaemon | TheCaller

record dsys =
  dpc :: dpc
  numCompactions :: int
  caller :: cpc
  dtrace :: "devent list"

definition dinit :: dsys where
  "dinit = \<lparr>dpc = AtSelect, numCompactions = 0, caller = NotYet, dtrace = []\<rparr>"

fun dstep :: "dwho \<Rightarrow> dsys \<Rightarrow> dsys" where
  "dstep TheCaller s = (case caller s of NotYet \<Rightarrow> s\<lparr>caller := Waiting\<rparr> | _ \<Rightarrow> s)"
| "dstep TheDaemon s =
     (case dpc s of
        AtSelect \<Rightarrow>
          (if caller s = Waiting
           then s\<lparr>dpc := DaemonReturned, caller := Got (numCompactions s),
                  dtrace := dtrace s @ [Handshake (numCompactions s)]\<rparr>
           else s\<lparr>dpc := InCompact, dtrace := dtrace s @ [CompactBegin]\<rparr>)
      | InCompact \<Rightarrow> s\<lparr>dpc := AtIncrement, dtrace := dtrace s @ [CompactEnd]\<rparr>
      | AtIncrement \<Rightarrow> s\<lparr>dpc := AtSelect, numCompactions := int64 (numCompactions s + 1)\<rparr>
      | DaemonReturned \<Rightarrow> s)"

definition drun :: "dwho list \<Rightarrow> dsys \<Rightarrow> dsys" where
  "drun sched s = fold dstep sched s"

definition completed :: "devent list \<Rightarrow> int" where
  "completed tr = int (length (filter (\<lambda>e. e = CompactEnd) tr))"

definition begun :: "devent list \<Rightarrow> int" where
  "begun tr = int (length (filter (\<lambda>e. e = CompactBegin) tr))"


section \<open>The fan-out and its join, interleaved\<close>

text \<open>
  The goroutines of lines 161 to 172: \<^verbatim>\<open>main\<close>, in its spawning loop, in its joining
  loop, or past both; and the workers started so far, each at the head of its loop with
  counter \<open>i\<close>, between \<^verbatim>\<open>b.Read(tid)\<close> and \<^verbatim>\<open>b.finishOp\<close>, at its send, or returned.
  The channel is unbuffered: a send completes together with a receive, so a worker's send
  is a joint step with \<^verbatim>\<open>main\<close>, possible only while \<^verbatim>\<open>main\<close> is in its joining
  loop with receives left. \<open>n\<close> is the loop bound \<^verbatim>\<open>1000*kiters\<close>.
\<close>

datatype mpc = Spawning int | Joining int | Past

datatype wpc = AtLoop int | AfterRead int | AtSend | WorkerReturned

datatype fevent = Spawned int | ReadCall int | FinishOpCall int | Signal int

datatype fwho = TheMain | TheWorker nat

record fsys =
  mpc :: mpc
  workers :: "(int \<times> wpc) list"
  ftrace :: "fevent list"

definition finit :: fsys where
  "finit = \<lparr>mpc = Spawning 0, workers = [], ftrace = []\<rparr>"

definition mainStep :: "int \<Rightarrow> fsys \<Rightarrow> fsys" where
  "mainStep par s =
     (case mpc s of
        Spawning tid \<Rightarrow>
          (if tid < par
           then s\<lparr>mpc := Spawning (tid + 1), workers := workers s @ [(tid, AtLoop 0)],
                  ftrace := ftrace s @ [Spawned tid]\<rparr>
           else s\<lparr>mpc := Joining 0\<rparr>)
      | Joining tid \<Rightarrow> (if tid < par then s else s\<lparr>mpc := Past\<rparr>)
      | Past \<Rightarrow> s)"

definition workerStep :: "int \<Rightarrow> int \<Rightarrow> nat \<Rightarrow> fsys \<Rightarrow> fsys" where
  "workerStep par n j s =
     (if \<not> j < length (workers s) then s
      else let tid = fst (workers s ! j) in
        case snd (workers s ! j) of
          AtLoop i \<Rightarrow>
            (if i < n
             then s\<lparr>workers := (workers s)[j := (tid, AfterRead i)],
                    ftrace := ftrace s @ [ReadCall tid]\<rparr>
             else s\<lparr>workers := (workers s)[j := (tid, AtSend)]\<rparr>)
        | AfterRead i \<Rightarrow>
            s\<lparr>workers := (workers s)[j := (tid, AtLoop (i + 1))],
              ftrace := ftrace s @ [FinishOpCall tid]\<rparr>
        | AtSend \<Rightarrow>
            (case mpc s of
               Joining t \<Rightarrow>
                 (if t < par
                  then s\<lparr>mpc := Joining (t + 1),
                         workers := (workers s)[j := (tid, WorkerReturned)],
                         ftrace := ftrace s @ [Signal tid]\<rparr>
                  else s)
             | _ \<Rightarrow> s)
        | WorkerReturned \<Rightarrow> s)"

fun fstep :: "int \<Rightarrow> int \<Rightarrow> fwho \<Rightarrow> fsys \<Rightarrow> fsys" where
  "fstep par n TheMain s = mainStep par s"
| "fstep par n (TheWorker j) s = workerStep par n j s"

definition frun :: "int \<Rightarrow> int \<Rightarrow> fwho list \<Rightarrow> fsys \<Rightarrow> fsys" where
  "frun par n sched s = fold (fstep par n) sched s"

fun of_worker :: "int \<Rightarrow> fevent \<Rightarrow> bool" where
  "of_worker tid (Spawned t) = False"
| "of_worker tid (ReadCall t) = (t = tid)"
| "of_worker tid (FinishOpCall t) = (t = tid)"
| "of_worker tid (Signal t) = (t = tid)"

fun is_signal :: "fevent \<Rightarrow> bool" where
  "is_signal (Signal t) = True"
| "is_signal _ = False"

fun is_spawned :: "fevent \<Rightarrow> bool" where
  "is_spawned (Spawned t) = True"
| "is_spawned _ = False"

section \<open>Vocabulary of the statements\<close>

definition ext :: "event list \<Rightarrow> world \<Rightarrow> world" where
  "ext es w = w\<lparr>trace := trace w @ es\<rparr>"

definition reps :: "nat \<Rightarrow> 'a list \<Rightarrow> 'a list" where
  "reps k es = concat (replicate k es)"

definition worker_trace :: "int \<Rightarrow> chan \<Rightarrow> int \<Rightarrow> event list" where
  "worker_trace kiters c tid =
     reps (nat (int64 (1000 * kiters))) [ReadEv tid, FinishOpEv tid] @ [SendEv c (VBool True)]"

definition daemon_trace :: "nat \<Rightarrow> chan \<Rightarrow> event list" where
  "daemon_trace k c = replicate k CompactEv @ [SendEv c (VInt (int64 (int k)))]"

text \<open>What a step from \<open>w\<close> to \<open>w'\<close> added to the trace, and the goroutines it started.\<close>

definition added :: "world \<Rightarrow> world \<Rightarrow> event list" where
  "added w w' = drop (length (trace w)) (trace w')"

definition started :: "world \<Rightarrow> world \<Rightarrow> event list list" where
  "started w w' = drop (length (goroutines w)) (goroutines w')"

fun is_op :: "event \<Rightarrow> bool" where
  "is_op (WriteEv t) = True"
| "is_op (ReadEv t) = True"
| "is_op _ = False"

text \<open>
  The dispatcher invokes the body when its result depends on the body: a function that is
  never applied cannot make a difference.
\<close>

definition invokes :: "config \<Rightarrow> string \<Rightarrow> int \<Rightarrow> world \<Rightarrow> bool" where
  "invokes conf name p w \<longleftrightarrow> (\<exists>f g. runBench conf name p f w \<noteq> runBench conf name p g w)"

definition defaultConf :: config where
  "defaultConf = \<lparr>DatabaseDir = ''bench.dir'', DatabaseSize = 10000,
                   BenchFilter = (\<lambda>name. True), ListBenches = False\<rparr>"

text \<open>An environment in which every call succeeds, and the default command line.\<close>

definition env0 :: env where
  "env0 = \<lparr>regexp_Compile = goCompile, os_Create = (\<lambda>fname. True),
           pprof_StartCPUProfile = True, pprof_WriteHeapProfile = True,
           polls1 = 3, polls2 = 3\<rparr>"

definition flags0 :: flags where
  "flags0 = \<lparr>dir_flag = ''bench.dir'', size_flag = 10000, list_flag = False, run_flag = [],
             kiters_flag = 1000, par_flag = 2, cpuprofile_flag = [], memprofile_flag = []\<rparr>"

text \<open>
  The kinds of step the ordering statements speak of, numbered in the order of the code
  (\<open>code_order\<close>) and in the order the specification gives (\<open>spec_order\<close>): setup, daemon
  start, fan-out, join, then finish and daemon stop, then release. Engine operations and
  console lines have no number.
\<close>

fun code_order :: "event \<Rightarrow> nat option" where
  "code_order FillEv = Some 0"
| "code_order ResetEv = Some 0"
| "code_order (GoEv Daemon) = Some 1"
| "code_order (GoEv (Worker t)) = Some 2"
| "code_order (RecvEv c (VBool b)) = Some 3"
| "code_order FinishEv = Some 4"
| "code_order (RecvEv c (VInt n)) = Some 5"
| "code_order StopEv = Some 6"
| "code_order _ = None"

fun spec_order :: "event \<Rightarrow> nat option" where
  "spec_order FillEv = Some 0"
| "spec_order ResetEv = Some 0"
| "spec_order (GoEv Daemon) = Some 1"
| "spec_order (GoEv (Worker t)) = Some 2"
| "spec_order (RecvEv c (VBool b)) = Some 3"
| "spec_order (RecvEv c (VInt n)) = Some 4"
| "spec_order FinishEv = Some 5"
| "spec_order StopEv = Some 6"
| "spec_order _ = None"

definition in_order :: "(event \<Rightarrow> nat option) \<Rightarrow> event list \<Rightarrow> bool" where
  "in_order kind tr = sorted (List.map_filter kind tr)"

text \<open>
  The events of the interleaving models, read as events of the goroutine that performs
  them on channel \<open>c\<close>.
\<close>

fun dview :: "chan \<Rightarrow> devent \<Rightarrow> event option" where
  "dview c CompactBegin = None"
| "dview c CompactEnd = Some CompactEv"
| "dview c (Handshake n) = Some (SendEv c (VInt n))"

fun wview :: "chan \<Rightarrow> fevent \<Rightarrow> event option" where
  "wview c (Spawned t) = None"
| "wview c (ReadCall t) = Some (ReadEv t)"
| "wview c (FinishOpCall t) = Some (FinishOpEv t)"
| "wview c (Signal t) = Some (SendEv c (VBool True))"

text \<open>
  A schedule that runs the fan-out to its end from wherever it stands: \<^verbatim>\<open>main\<close> moves
  until it has left its spawning loop, then each worker in turn gets as many steps as its
  whole run can take, then \<^verbatim>\<open>main\<close> moves once more.
\<close>

definition block :: "int \<Rightarrow> nat \<Rightarrow> fwho list" where
  "block n j = replicate (2 * nat n + 2) (TheWorker j)"

definition one_by_one :: "int \<Rightarrow> int \<Rightarrow> fwho list" where
  "one_by_one par n =
     replicate (Suc (nat par)) TheMain @ concat (map (block n) [0..<nat par]) @ [TheMain]"

fun spawning :: "mpc \<Rightarrow> bool" where
  "spawning (Spawning t) = True"
| "spawning _ = False"

text \<open>The number of steps a worker still has to make before it has returned.\<close>

fun need :: "int \<Rightarrow> wpc \<Rightarrow> nat" where
  "need n (AtLoop i) = 2 * nat (n - i) + 2"
| "need n (AfterRead i) = 2 * nat (n - i - 1) + 3"
| "need n AtSend = 1"
| "need n WorkerReturned = 0"

text \<open>The invariant of the handshake: what the trace holds at each point of the daemon.\<close>

definition dinv :: "dsys \<Rightarrow> bool" where
  "dinv s \<longleftrightarrow>
     (\<exists>k. numCompactions s = int64 (int k) \<and>
        (case dpc s of
           AtSelect \<Rightarrow>
             dtrace s = reps k [CompactBegin, CompactEnd] \<and>
             (caller s = NotYet \<or> caller s = Waiting)
         | InCompact \<Rightarrow>
             dtrace s = reps k [CompactBegin, CompactEnd] @ [CompactBegin] \<and>
             (caller s = NotYet \<or> caller s = Waiting)
         | AtIncrement \<Rightarrow>
             dtrace s = reps k [CompactBegin, CompactEnd] @ [CompactBegin, CompactEnd] \<and>
             (caller s = NotYet \<or> caller s = Waiting)
         | DaemonReturned \<Rightarrow>
             dtrace s = reps k [CompactBegin, CompactEnd] @ [Handshake (int64 (int k))] \<and>
             caller s = Got (int64 (int k))))"

text \<open>
  The invariant of the fan-out: what a worker has done at each point of its code, how far
  it may have counted, and how the position of \<^verbatim>\<open>main\<close> relates to the workers.
\<close>

definition wlog :: "int \<Rightarrow> int \<Rightarrow> wpc \<Rightarrow> fevent list" where
  "wlog n tid pc =
     (case pc of
        AtLoop i \<Rightarrow> reps (nat i) [ReadCall tid, FinishOpCall tid]
      | AfterRead i \<Rightarrow> reps (nat i) [ReadCall tid, FinishOpCall tid] @ [ReadCall tid]
      | AtSend \<Rightarrow> reps (nat n) [ReadCall tid, FinishOpCall tid]
      | WorkerReturned \<Rightarrow> reps (nat n) [ReadCall tid, FinishOpCall tid] @ [Signal tid])"

definition wok :: "int \<Rightarrow> wpc \<Rightarrow> bool" where
  "wok n pc =
     (case pc of
        AtLoop i \<Rightarrow> 0 \<le> i \<and> i \<le> max 0 n
      | AfterRead i \<Rightarrow> 0 \<le> i \<and> i < n
      | AtSend \<Rightarrow> True
      | WorkerReturned \<Rightarrow> True)"

definition returned :: "(int \<times> wpc) list \<Rightarrow> nat" where
  "returned ws = length (filter (\<lambda>w. snd w = WorkerReturned) ws)"

definition finv :: "int \<Rightarrow> int \<Rightarrow> fsys \<Rightarrow> bool" where
  "finv par n s \<longleftrightarrow>
     map fst (workers s) = map int [0..<length (workers s)] \<and>
     length (workers s) \<le> nat par \<and>
     filter is_spawned (ftrace s) = map (\<lambda>j. Spawned (int j)) [0..<length (workers s)] \<and>
     (\<forall>j < length (workers s).
        wok n (snd (workers s ! j)) \<and>
        filter (of_worker (int j)) (ftrace s) = wlog n (int j) (snd (workers s ! j))) \<and>
     (\<forall>tid. \<not> (0 \<le> tid \<and> tid < int (length (workers s))) \<longrightarrow>
        filter (of_worker tid) (ftrace s) = []) \<and>
     length (filter is_signal (ftrace s)) = returned (workers s) \<and>
     (case mpc s of
        Spawning t \<Rightarrow> t = int (length (workers s)) \<and> returned (workers s) = 0
      | Joining t \<Rightarrow> length (workers s) = nat par \<and> t = int (returned (workers s))
      | Past \<Rightarrow> length (workers s) = nat par \<and> returned (workers s) = nat par)"

section \<open>Machine integers\<close>

lemma int64_no_wrap:
  assumes "- 9223372036854775808 \<le> x" "x \<le> 9223372036854775807"
  shows "int64 x = x"
  using assms by (simp add: int64_def)

lemma int64_succ: "int64 (int64 x + 1) = int64 (x + 1)"
proof -
  have "int64 (int64 x + 1) = ((x + 2 ^ 63) mod 2 ^ 64 + 1) mod 2 ^ 64 - 2 ^ 63"
    unfolding int64_def by (simp add: algebra_simps)
  also have "((x + 2 ^ 63) mod 2 ^ 64 + 1) mod 2 ^ 64 = (x + 2 ^ 63 + 1) mod 2 ^ 64"
    by (rule mod_add_left_eq)
  also have "(x + 2 ^ 63 + 1) mod 2 ^ 64 - 2 ^ 63 = int64 (x + 1)"
    unfolding int64_def by (simp add: algebra_simps)
  finally show ?thesis .
qed

lemma int64_0: "int64 0 = 0"
  by (simp add: int64_def)

section \<open>Loops and primitives in closed form\<close>

lemma forLoop_funpow: "forLoop i n (\<lambda>_. f) s = (f ^^ nat (n - i)) s"
proof (induction i n "\<lambda>_::int. f" s rule: forLoop.induct)
  case (1 i n s)
  show ?case
  proof (cases "i < n")
    case True
    then have "nat (n - i) = Suc (nat (n - (i + 1)))" by simp
    with True 1 show ?thesis
      by (subst forLoop.simps) (simp add: funpow_swap1)
  next
    case False
    then show ?thesis by (subst forLoop.simps) simp
  qed
qed

lemma forLoop_fold_from: "0 \<le> i \<Longrightarrow> forLoop i n body s = fold (\<lambda>j. body (int j)) [nat i..<nat n] s"
proof (induction i n body s rule: forLoop.induct)
  case (1 i n body s)
  show ?case
  proof (cases "i < n")
    case True
    with 1 have "[nat i..<nat n] = nat i # [nat (i + 1)..<nat n]"
      by (simp add: upt_conv_Cons nat_add_distrib)
    with True 1 show ?thesis
      by (subst forLoop.simps) simp
  next
    case False
    then show ?thesis by (subst forLoop.simps) simp
  qed
qed

lemma forLoop_fold: "forLoop 0 n body s = fold (\<lambda>j. body (int j)) [0..<nat n] s"
  using forLoop_fold_from [of 0 n body s] by simp

lemma ext_ext: "ext es (ext fs w) = ext (fs @ es) w"
  by (simp add: ext_def)

lemma ext_Nil: "ext [] w = w"
  by (simp add: ext_def)

lemma blocked_ext: "blocked (ext es w) = blocked w"
  by (simp add: ext_def)

lemma emit_ext: "\<not> blocked w \<Longrightarrow> emit e w = ext [e] w"
  by (simp add: emit_def ext_def)

lemma reps_Suc: "reps (Suc k) es = reps k es @ es"
  by (induction k) (simp_all add: reps_def)

lemma reps_0: "reps 0 es = []"
  by (simp add: reps_def)

lemma funpow_ext:
  assumes "\<And>w. \<not> blocked w \<Longrightarrow> f w = ext es w" and "\<not> blocked w"
  shows "(f ^^ k) w = ext (reps k es) w"
proof (induction k)
  case 0
  show ?case by (simp add: reps_0 ext_Nil)
next
  case (Suc k)
  have "\<not> blocked (ext (reps k es) w)" using assms(2) by (simp add: blocked_ext)
  then show ?case using Suc assms(1) by (simp add: reps_Suc ext_ext)
qed

lemma write_op: "\<not> blocked w \<Longrightarrow> writeOp t w = ext [WriteEv t, FinishOpEv t] w"
  by (simp add: writeOp_def Write_def finishOp_def emit_def ext_def)

lemma read_op: "\<not> blocked w \<Longrightarrow> readOp t w = ext [ReadEv t, FinishOpEv t] w"
  by (simp add: readOp_def Read_def finishOp_def emit_def ext_def)

lemma write_loop:
  "\<not> blocked w \<Longrightarrow>
   forLoop 0 n (\<lambda>i. writeOp t) w = ext (reps (nat n) [WriteEv t, FinishOpEv t]) w"
  by (simp add: forLoop_funpow funpow_ext [OF write_op])

lemma read_loop:
  "\<not> blocked w \<Longrightarrow>
   forLoop 0 n (\<lambda>i. readOp t) w = ext (reps (nat n) [ReadEv t, FinishOpEv t]) w"
  by (simp add: forLoop_funpow funpow_ext [OF read_op])


lemma Fill_ext: "\<not> blocked w \<Longrightarrow> Fill w = ext [FillEv] w"
  by (simp add: Fill_def emit_ext)

lemma Reset_ext: "\<not> blocked w \<Longrightarrow> Reset w = ext [ResetEv] w"
  by (simp add: Reset_def emit_ext)

lemma Compact_ext: "\<not> blocked w \<Longrightarrow> Compact w = ext [CompactEv] w"
  by (simp add: Compact_def emit_ext)

lemma stop_ext: "\<not> blocked w \<Longrightarrow> stop w = ext [StopEv] w"
  by (simp add: stop_def emit_ext)

lemma Println_ext: "\<not> blocked w \<Longrightarrow> Println s w = ext [PrintEv s] w"
  by (simp add: Println_def emit_ext)

lemma finish_ext: "\<not> blocked w \<Longrightarrow> finish w = (ext [FinishEv] w)\<lparr>finishedFlag := True\<rparr>"
  by (simp add: finish_def emit_def ext_def)

lemma newBench_ext:
  "\<not> blocked w \<Longrightarrow> newBench conf name p w = (ext [NewBenchEv name p] w)\<lparr>finishedFlag := False\<rparr>"
  by (simp add: newBench_def emit_def ext_def)

lemma daemon_loop_closed:
  "\<not> blocked w \<Longrightarrow> c < length (chans w) \<Longrightarrow>
   daemon_loop k c (int64 n) w =
     w\<lparr>trace := trace w @ replicate k CompactEv @ [SendEv c (VInt (int64 (n + int k)))],
       chans := (chans w)[c := chans w ! c @ [VInt (int64 (n + int k))]]\<rparr>"
proof (induction k arbitrary: n w)
  case 0
  then show ?case by (simp add: send_def)
next
  case (Suc k)
  have "\<not> blocked (Compact w)" "c < length (chans (Compact w))"
    using Suc.prems by (simp_all add: Compact_ext ext_def)
  from Suc.IH [OF this, of "n + 1"] Suc.prems show ?case
    by (simp add: Compact_ext ext_def add.assoc int64_succ)
qed

lemma startCompaction_closed:
  "\<not> blocked w \<Longrightarrow>
   startCompaction k w =
     (length (chans w),
      w\<lparr>trace := trace w @ [GoEv Daemon],
        goroutines := goroutines w @
          [replicate k CompactEv @ [SendEv (length (chans w)) (VInt (int64 (int k)))]],
        chans := chans w @ [[VInt (int64 (int k))]]\<rparr>)"
  using daemon_loop_closed [of _ _ k 0]
  by (simp add: startCompaction_def make_chan_def go_def Let_def int64_0)

lemma worker_closed:
  assumes "\<not> blocked w" "c < length (chans w)"
  shows "worker kiters c tid w =
     w\<lparr>trace := trace w @ reps (nat (int64 (1000 * kiters))) [ReadEv tid, FinishOpEv tid]
                  @ [SendEv c (VBool True)],
       chans := (chans w)[c := chans w ! c @ [VBool True]]\<rparr>"
  using assms by (simp add: worker_def read_loop send_def ext_def)


lemma go_worker_closed:
  assumes "\<not> blocked w" "c < length (chans w)"
  shows "go (Worker tid) (worker kiters c tid) w =
     w\<lparr>trace := trace w @ [GoEv (Worker tid)],
       goroutines := goroutines w @ [worker_trace kiters c tid],
       chans := (chans w)[c := chans w ! c @ [VBool True]]\<rparr>"
  using assms by (simp add: go_def worker_closed worker_trace_def Let_def)

lemma fanout_closed:
  assumes "\<not> blocked w" "c < length (chans w)"
  shows "fanout kiters p c w =
     w\<lparr>trace := trace w @ map (\<lambda>j. GoEv (Worker (int j))) [0..<nat p],
       goroutines := goroutines w @ map (\<lambda>j. worker_trace kiters c (int j)) [0..<nat p],
       chans := (chans w)[c := chans w ! c @ replicate (nat p) (VBool True)]\<rparr>"
proof -
  have "fold (\<lambda>j. go (Worker (int j)) (worker kiters c (int j))) [0..<m] w =
     w\<lparr>trace := trace w @ map (\<lambda>j. GoEv (Worker (int j))) [0..<m],
       goroutines := goroutines w @ map (\<lambda>j. worker_trace kiters c (int j)) [0..<m],
       chans := (chans w)[c := chans w ! c @ replicate m (VBool True)]\<rparr>" for m
  proof (induction m)
    case 0
    show ?case by simp
  next
    case (Suc m)
    show ?case using assms
      by (simp add: Suc go_worker_closed replicate_append_same)
  qed
  then show ?thesis by (simp add: fanout_def forLoop_fold)
qed

lemma recv_closed:
  assumes "\<not> blocked w" "c < length (chans w)" "chans w ! c = v # vs"
  shows "recv c w = (v, w\<lparr>trace := trace w @ [RecvEv c v], chans := (chans w)[c := vs]\<rparr>)"
  using assms by (simp add: recv_def)

lemma join_closed:
  assumes "\<not> blocked w" "c < length (chans w)" "chans w ! c = replicate (nat p) v @ vs"
  shows "join p c w =
     w\<lparr>trace := trace w @ replicate (nat p) (RecvEv c v), chans := (chans w)[c := vs]\<rparr>"
proof -
  have "\<not> blocked w \<Longrightarrow> c < length (chans w) \<Longrightarrow> chans w ! c = replicate m v @ vs \<Longrightarrow>
     ((\<lambda>b. snd (recv c b)) ^^ m) w =
     w\<lparr>trace := trace w @ replicate m (RecvEv c v), chans := (chans w)[c := vs]\<rparr>" for m w
  proof (induction m arbitrary: w)
    case 0
    then show ?case by (simp add: list_update_same_conv [THEN iffD2])
  next
    case (Suc m)
    let ?w = "w\<lparr>trace := trace w @ [RecvEv c v], chans := (chans w)[c := replicate m v @ vs]\<rparr>"
    have r: "(\<lambda>b. snd (recv c b)) w = ?w"
      using Suc.prems by (simp add: recv_closed)
    have "((\<lambda>b. snd (recv c b)) ^^ m) ?w =
        ?w\<lparr>trace := trace ?w @ replicate m (RecvEv c v), chans := (chans ?w)[c := vs]\<rparr>"
      using Suc.prems by (intro Suc.IH) simp_all
    moreover have "((\<lambda>b. snd (recv c b)) ^^ Suc m) w =
        ((\<lambda>b. snd (recv c b)) ^^ m) ((\<lambda>b. snd (recv c b)) w)"
      by (simp only: funpow_Suc_right comp_apply)
    ultimately show ?case
      by (simp only: r) simp
  qed
  from this [OF assms] show ?thesis by (simp add: join_def forLoop_funpow)
qed


lemma join_done:
  assumes "\<not> blocked w" "c < length (chans w)" "chans w ! c = replicate (nat p) (VBool True)"
  shows "join p c w =
     w\<lparr>trace := trace w @ replicate (nat p) (RecvEv c (VBool True)),
       chans := (chans w)[c := []]\<rparr>"
  using assms join_closed [of w c p "VBool True" "[]"] by simp

lemma runBench_run:
  "BenchFilter conf name \<Longrightarrow> \<not> ListBenches conf \<Longrightarrow>
   runBench conf name p f w =
     (let b = f (newBench conf name p w) in stop (if \<not> IsFinished b then finish b else b))"
  by (simp add: runBench_def Let_def)

section \<open>The seven benchmarks in closed form\<close>

lemma body_writes_closed:
  assumes "\<not> blocked b"
  shows "body_writes kiters b =
     b\<lparr>trace := trace b @
          reps (nat (int64 (1000 * kiters))) [WriteEv 0, FinishOpEv 0] @ [CompactEv]\<rparr>"
  using assms by (simp add: body_writes_def write_loop Compact_ext ext_def)

lemma body_rbuf_reads_closed:
  assumes "\<not> blocked b"
  shows "body_rbuf_reads kiters b =
     b\<lparr>trace := trace b @ [FillEv, ResetEv] @
          reps (nat (int64 (1000 * kiters))) [ReadEv 0, FinishOpEv 0]\<rparr>"
  using assms by (simp add: body_rbuf_reads_def read_loop Fill_ext Reset_ext ext_def)

lemma body_table_reads_closed:
  assumes "\<not> blocked b"
  shows "body_table_reads kiters b =
     b\<lparr>trace := trace b @ [FillEv, CompactEv, CompactEv, ResetEv] @
          reps (nat (int64 (1000 * kiters))) [ReadEv 0, FinishOpEv 0]\<rparr>"
  using assms
  by (simp add: body_table_reads_def read_loop Fill_ext Reset_ext Compact_ext ext_def)

lemma body_write_compact_closed:
  assumes "\<not> blocked b"
  shows "body_write_compact k kiters b =
     b\<lparr>trace := trace b @ [FillEv, ResetEv, GoEv Daemon] @
          reps (nat (int64 (1000 * kiters))) [WriteEv 0, FinishOpEv 0] @
          [FinishEv, RecvEv (length (chans b)) (VInt (int64 (int k))),
           PrintEv (''  finished '' @ itoa (int64 (int k)) @ '' compactions'')],
       finishedFlag := True,
       goroutines := goroutines b @ [daemon_trace k (length (chans b))],
       chans := chans b @ [[]]\<rparr>"
  using assms
  by (simp add: body_write_compact_def write_loop Fill_ext Reset_ext
      startCompaction_closed finish_ext ext_def recv_closed
      printCompactions_def Println_ext daemon_trace_def)

lemma body_table_reads_par_closed:
  assumes "\<not> blocked b"
  shows "body_table_reads_par kiters q b =
     b\<lparr>trace := trace b @ [FillEv, CompactEv, CompactEv, ResetEv] @
          map (\<lambda>j. GoEv (Worker (int j))) [0..<nat q] @
          replicate (nat q) (RecvEv (length (chans b)) (VBool True)),
       goroutines := goroutines b @
          map (\<lambda>j. worker_trace kiters (length (chans b)) (int j)) [0..<nat q],
       chans := chans b @ [[]]\<rparr>"
  using assms
  by (simp add: body_table_reads_par_def Fill_ext Reset_ext
      Compact_ext make_chan_def fanout_closed join_done nth_append ext_def)

lemma body_rbuf_reads_par_closed:
  assumes "\<not> blocked b"
  shows "body_rbuf_reads_par kiters q b =
     b\<lparr>trace := trace b @ [FillEv, CompactEv, ResetEv] @
          map (\<lambda>j. GoEv (Worker (int j))) [0..<nat q] @
          replicate (nat q) (RecvEv (length (chans b)) (VBool True)),
       goroutines := goroutines b @
          map (\<lambda>j. worker_trace kiters (length (chans b)) (int j)) [0..<nat q],
       chans := chans b @ [[]]\<rparr>"
  using assms
  by (simp add: body_rbuf_reads_par_def Fill_ext Reset_ext
      Compact_ext make_chan_def fanout_closed join_done nth_append ext_def)

lemma body_read_par_compact_closed:
  assumes "\<not> blocked b"
  shows "body_read_par_compact k kiters q b =
     b\<lparr>trace := trace b @ [FillEv, CompactEv, ResetEv, GoEv Daemon] @
          map (\<lambda>j. GoEv (Worker (int j))) [0..<nat q] @
          replicate (nat q) (RecvEv (Suc (length (chans b))) (VBool True)) @
          [FinishEv, RecvEv (length (chans b)) (VInt (int64 (int k))),
           PrintEv (''  finished '' @ itoa (int64 (int k)) @ '' compactions'')],
       finishedFlag := True,
       goroutines := goroutines b @ daemon_trace k (length (chans b)) #
          map (\<lambda>j. worker_trace kiters (Suc (length (chans b))) (int j)) [0..<nat q],
       chans := chans b @ [[], []]\<rparr>"
  using assms
  by (simp add: body_read_par_compact_def Fill_ext Reset_ext
      Compact_ext startCompaction_closed make_chan_def fanout_closed join_done nth_append
      finish_ext ext_def recv_closed list_update_append
      printCompactions_def Println_ext daemon_trace_def)

text \<open>The events a run of the dispatcher adds, benchmark by benchmark.\<close>

lemma run_writes:
  assumes "BenchFilter conf name" "\<not> ListBenches conf" "\<not> blocked w"
  shows "runBench conf name p (body_writes kiters) w =
     w\<lparr>trace := trace w @ NewBenchEv name p #
          reps (nat (int64 (1000 * kiters))) [WriteEv 0, FinishOpEv 0] @
          [CompactEv, FinishEv, StopEv],
       finishedFlag := True\<rparr>"
  using assms
  by (simp add: runBench_run newBench_ext body_writes_closed
      finish_ext stop_ext IsFinished_def ext_def)

lemma run_rbuf_reads:
  assumes "BenchFilter conf name" "\<not> ListBenches conf" "\<not> blocked w"
  shows "runBench conf name p (body_rbuf_reads kiters) w =
     w\<lparr>trace := trace w @ [NewBenchEv name p, FillEv, ResetEv] @
          reps (nat (int64 (1000 * kiters))) [ReadEv 0, FinishOpEv 0] @
          [FinishEv, StopEv],
       finishedFlag := True\<rparr>"
  using assms
  by (simp add: runBench_run newBench_ext body_rbuf_reads_closed
      finish_ext stop_ext IsFinished_def ext_def)

lemma run_table_reads:
  assumes "BenchFilter conf name" "\<not> ListBenches conf" "\<not> blocked w"
  shows "runBench conf name p (body_table_reads kiters) w =
     w\<lparr>trace := trace w @ [NewBenchEv name p, FillEv, CompactEv, CompactEv, ResetEv] @
          reps (nat (int64 (1000 * kiters))) [ReadEv 0, FinishOpEv 0] @
          [FinishEv, StopEv],
       finishedFlag := True\<rparr>"
  using assms
  by (simp add: runBench_run newBench_ext body_table_reads_closed
      finish_ext stop_ext IsFinished_def ext_def)

lemma run_write_compact:
  assumes "BenchFilter conf name" "\<not> ListBenches conf" "\<not> blocked w"
  shows "runBench conf name p (body_write_compact k kiters) w =
     w\<lparr>trace := trace w @ [NewBenchEv name p, FillEv, ResetEv, GoEv Daemon] @
          reps (nat (int64 (1000 * kiters))) [WriteEv 0, FinishOpEv 0] @
          [FinishEv, RecvEv (length (chans w)) (VInt (int64 (int k))),
           PrintEv (''  finished '' @ itoa (int64 (int k)) @ '' compactions''), StopEv],
       finishedFlag := True,
       goroutines := goroutines w @ [daemon_trace k (length (chans w))],
       chans := chans w @ [[]]\<rparr>"
  using assms
  by (simp add: runBench_run newBench_ext body_write_compact_closed
      stop_ext IsFinished_def ext_def)

lemma run_table_reads_par:
  assumes "BenchFilter conf name" "\<not> ListBenches conf" "\<not> blocked w"
  shows "runBench conf name p (body_table_reads_par kiters q) w =
     w\<lparr>trace := trace w @ [NewBenchEv name p, FillEv, CompactEv, CompactEv, ResetEv] @
          map (\<lambda>j. GoEv (Worker (int j))) [0..<nat q] @
          replicate (nat q) (RecvEv (length (chans w)) (VBool True)) @
          [FinishEv, StopEv],
       finishedFlag := True,
       goroutines := goroutines w @
          map (\<lambda>j. worker_trace kiters (length (chans w)) (int j)) [0..<nat q],
       chans := chans w @ [[]]\<rparr>"
  using assms
  by (simp add: runBench_run newBench_ext body_table_reads_par_closed
      finish_ext stop_ext IsFinished_def ext_def)

lemma run_rbuf_reads_par:
  assumes "BenchFilter conf name" "\<not> ListBenches conf" "\<not> blocked w"
  shows "runBench conf name p (body_rbuf_reads_par kiters q) w =
     w\<lparr>trace := trace w @ [NewBenchEv name p, FillEv, CompactEv, ResetEv] @
          map (\<lambda>j. GoEv (Worker (int j))) [0..<nat q] @
          replicate (nat q) (RecvEv (length (chans w)) (VBool True)) @
          [FinishEv, StopEv],
       finishedFlag := True,
       goroutines := goroutines w @
          map (\<lambda>j. worker_trace kiters (length (chans w)) (int j)) [0..<nat q],
       chans := chans w @ [[]]\<rparr>"
  using assms
  by (simp add: runBench_run newBench_ext body_rbuf_reads_par_closed
      finish_ext stop_ext IsFinished_def ext_def)

lemma run_read_par_compact:
  assumes "BenchFilter conf name" "\<not> ListBenches conf" "\<not> blocked w"
  shows "runBench conf name p (body_read_par_compact k kiters q) w =
     w\<lparr>trace := trace w @ [NewBenchEv name p, FillEv, CompactEv, ResetEv, GoEv Daemon] @
          map (\<lambda>j. GoEv (Worker (int j))) [0..<nat q] @
          replicate (nat q) (RecvEv (Suc (length (chans w))) (VBool True)) @
          [FinishEv, RecvEv (length (chans w)) (VInt (int64 (int k))),
           PrintEv (''  finished '' @ itoa (int64 (int k)) @ '' compactions''), StopEv],
       finishedFlag := True,
       goroutines := goroutines w @ daemon_trace k (length (chans w)) #
          map (\<lambda>j. worker_trace kiters (Suc (length (chans w))) (int j)) [0..<nat q],
       chans := chans w @ [[], []]\<rparr>"
  using assms
  by (simp add: runBench_run newBench_ext body_read_par_compact_closed
      stop_ext IsFinished_def ext_def)

section \<open>Counting events\<close>

lemma filter_reps: "filter P (reps k es) = reps k (filter P es)"
  by (induction k) (simp_all add: reps_def)

lemma reps_Nil [simp]: "reps k [] = []"
  by (simp add: reps_def)

lemma length_reps [simp]: "length (reps k es) = k * length es"
  by (induction k) (simp_all add: reps_def)

lemma set_reps: "set (reps k es) \<subseteq> set es"
  by (auto simp: reps_def)

lemma count_reps [simp]: "count_list (reps k es) x = k * count_list es x"
  by (induction k) (simp_all add: reps_def)

lemma count_map_other: "(\<And>j. f j \<noteq> x) \<Longrightarrow> count_list (map f xs) x = 0"
  by (induction xs) simp_all

lemma count_replicate: "count_list (replicate n y) x = (if x = y then n else 0)"
  by (induction n) auto

lemma runAll_benchmarks:
  "runAll conf kiters par k1 k2 w =
     fold (\<lambda>(name, p, f). runBench conf name p f) (benchmarks kiters par k1 k2) w"
  by (simp add: runAll_def benchmarks_def)

lemma benchmarks_cases:
  assumes "(name, p, f) \<in> set (benchmarks kiters par k1 k2)"
  obtains
    "name = ''writes''" "p = 1" "f = body_writes kiters"
  | "name = ''write + compact''" "p = 1" "f = body_write_compact k1 kiters"
  | "name = ''rbuf reads''" "p = 1" "f = body_rbuf_reads kiters"
  | "name = ''table reads''" "p = 1" "f = body_table_reads kiters"
  | "name = ''table reads (par='' @ itoa par @ '')''" "p = par"
      "f = body_table_reads_par kiters par"
  | "name = ''rbuf reads (par='' @ itoa par @ '')''" "p = par"
      "f = body_rbuf_reads_par kiters par"
  | "name = ''read par='' @ itoa par @ '' + compact''" "p = par"
      "f = body_read_par_compact k2 kiters par"
proof -
  from assms have
    "(name = ''writes'' \<and> p = 1 \<and> f = body_writes kiters) \<or>
     (name = ''write + compact'' \<and> p = 1 \<and> f = body_write_compact k1 kiters) \<or>
     (name = ''rbuf reads'' \<and> p = 1 \<and> f = body_rbuf_reads kiters) \<or>
     (name = ''table reads'' \<and> p = 1 \<and> f = body_table_reads kiters) \<or>
     (name = ''table reads (par='' @ itoa par @ '')'' \<and> p = par \<and>
        f = body_table_reads_par kiters par) \<or>
     (name = ''rbuf reads (par='' @ itoa par @ '')'' \<and> p = par \<and>
        f = body_rbuf_reads_par kiters par) \<or>
     (name = ''read par='' @ itoa par @ '' + compact'' \<and> p = par \<and>
        f = body_read_par_compact k2 kiters par)"
    by (simp only: benchmarks_def list.set insert_iff empty_iff prod.inject simp_thms)
  then show thesis by (elim disjE conjE) (erule (2) that)+
qed



lemmas run_closed = run_writes run_write_compact run_rbuf_reads run_table_reads
  run_table_reads_par run_rbuf_reads_par run_read_par_compact

lemmas body_closed = body_writes_closed body_write_compact_closed body_rbuf_reads_closed
  body_table_reads_closed body_table_reads_par_closed body_rbuf_reads_par_closed
  body_read_par_compact_closed

lemma added_closed:
  "added w (w\<lparr>trace := trace w @ es, finishedFlag := ff, goroutines := gs, chans := cs\<rparr>) = es"
  "added w (w\<lparr>trace := trace w @ es, finishedFlag := ff\<rparr>) = es"
  by (simp_all add: added_def)

lemma started_closed:
  "started w (w\<lparr>trace := tr, finishedFlag := ff, goroutines := goroutines w @ gs,
     chans := cs\<rparr>) = gs"
  "started w (w\<lparr>trace := tr, finishedFlag := ff\<rparr>) = []"
  by (simp_all add: started_def)

lemma set_worker_trace:
  "set (worker_trace kiters c tid) \<subseteq> {ReadEv tid, FinishOpEv tid, SendEv c (VBool True)}"
  using set_reps [of "nat (int64 (1000 * kiters))" "[ReadEv tid, FinishOpEv tid]"]
  by (auto simp: worker_trace_def)

lemma set_daemon_trace:
  "set (daemon_trace k c) \<subseteq> {CompactEv, SendEv c (VInt (int64 (int k)))}"
  by (auto simp: daemon_trace_def)

lemma finish_notin_worker [simp]: "FinishEv \<notin> set (worker_trace kiters c tid)"
  using set_worker_trace [of kiters c tid] by auto

lemma finish_notin_daemon [simp]: "FinishEv \<notin> set (daemon_trace k c)"
  using set_daemon_trace [of k c] by auto


lemma noop_go: "list_all (\<lambda>e. \<not> is_op e) (map (\<lambda>j. GoEv (Worker (int j))) xs)"
  by (induction xs) simp_all

lemma noop_recv: "list_all (\<lambda>e. \<not> is_op e) (replicate n (RecvEv c v))"
  by (induction n) simp_all

lemma is_op_daemon: "list_all (\<lambda>e. \<not> is_op e) (daemon_trace k c)"
  by (simp add: daemon_trace_def list_all_iff)

lemma map_filter_app: "List.map_filter f (xs @ ys) = List.map_filter f xs @ List.map_filter f ys"
  by (simp add: List.map_filter_def)

lemma map_filter_none: "(\<And>x. x \<in> set xs \<Longrightarrow> f x = None) \<Longrightarrow> List.map_filter f xs = []"
  by (induction xs) (simp_all add: List.map_filter_simps)

lemma map_filter_reps_op:
  "List.map_filter code_order (reps k [WriteEv t, FinishOpEv t]) = []"
  "List.map_filter code_order (reps k [ReadEv t, FinishOpEv t]) = []"
  "List.map_filter spec_order (reps k [WriteEv t, FinishOpEv t]) = []"
  "List.map_filter spec_order (reps k [ReadEv t, FinishOpEv t]) = []"
  by (rule map_filter_none, use set_reps in fastforce)+

lemma map_filter_go:
  "List.map_filter code_order (map (\<lambda>j. GoEv (Worker (int j))) xs) = replicate (length xs) 2"
  by (induction xs) (simp_all add: List.map_filter_simps)

lemma map_filter_recv:
  "List.map_filter code_order (replicate n (RecvEv c (VBool b))) = replicate n 3"
  by (induction n) (simp_all add: List.map_filter_simps)

lemma ball_replicate: "Ball (set (replicate n y)) P \<longleftrightarrow> n = 0 \<or> P y"
  by (cases n) auto

lemmas order_simps = in_order_def map_filter_app map_filter_reps_op map_filter_go
  map_filter_recv sorted_append ball_Un ball_replicate

lemma invokes_iff: "invokes conf name p w \<longleftrightarrow> BenchFilter conf name \<and> \<not> ListBenches conf"
proof
  assume "invokes conf name p w"
  then show "BenchFilter conf name \<and> \<not> ListBenches conf"
    by (auto simp: invokes_def runBench_def split: if_splits)
next
  assume a: "BenchFilter conf name \<and> \<not> ListBenches conf"
  let ?f = "\<lambda>w::world. w\<lparr>trace := [], blocked := True\<rparr>"
  let ?g = "\<lambda>w::world. w\<lparr>trace := [FillEv], blocked := True\<rparr>"
  have "trace (runBench conf name p ?f w) = []" "trace (runBench conf name p ?g w) = [FillEv]"
    using a by (simp_all add: runBench_def Let_def IsFinished_def finish_def stop_def emit_def)
  then have "runBench conf name p ?f w \<noteq> runBench conf name p ?g w" by auto
  then show "invokes conf name p w" unfolding invokes_def by blast
qed

lemma defaultConf_simps:
  "BenchFilter defaultConf name" "\<not> ListBenches defaultConf"
  "BenchFilter (defaultConf\<lparr>ListBenches := True\<rparr>) name"
  "ListBenches (defaultConf\<lparr>ListBenches := True\<rparr>)"
  by (simp_all add: defaultConf_def)

lemma w0_simps: "\<not> blocked w0" "trace w0 = []" "goroutines w0 = []" "chans w0 = []"
  by (simp_all add: w0_def)

lemma itoa_2: "itoa 2 = ''2''"
  by (simp add: itoa_def digits.simps)

section \<open>The dispatcher: filter and list-only mode\<close>

text \<open>
  Claim C4, as amended. The dispatcher invokes the body of a benchmark if and only if the
  filter matches its name and list-only mode is off; when the name does not match, the
  dispatch leaves the world as it was: no handle is built and nothing is printed.
\<close>

theorem dispatch_filter:
  "(invokes conf name p w \<longleftrightarrow> BenchFilter conf name \<and> \<not> ListBenches conf) \<and>
   (\<not> BenchFilter conf name \<longrightarrow> runBench conf name p f w = w)"
  by (simp add: invokes_iff runBench_def)

theorem dispatch_filter_witness:
  "invokes defaultConf ''writes'' 1 w0 \<and>
   runBench (defaultConf\<lparr>BenchFilter := (\<lambda>name. name = ''rbuf reads'')\<rparr>) ''writes'' 1
     (body_writes 1) w0 = w0"
  using dispatch_filter [of defaultConf "''writes''" 1 w0]
    dispatch_filter [of "defaultConf\<lparr>BenchFilter := (\<lambda>name. name = ''rbuf reads'')\<rparr>"
      "''writes''" 1 w0 "body_writes 1"]
  by (simp add: defaultConf_simps)

text \<open>
  The claim as the specification words it (the body runs exactly when the pattern matches)
  fails in list-only mode: the name matches, the body is not invoked, and the only effect
  is the printed name.
\<close>

theorem dispatch_filter_list_mode:
  "BenchFilter (defaultConf\<lparr>ListBenches := True\<rparr>) ''writes'' \<and>
   \<not> invokes (defaultConf\<lparr>ListBenches := True\<rparr>) ''writes'' 1 w0 \<and>
   trace (runBench (defaultConf\<lparr>ListBenches := True\<rparr>) ''writes'' 1 (body_writes 1) w0) =
     [PrintEv ''writes'']"
  by (simp add: invokes_iff defaultConf_simps runBench_def Println_ext w0_simps ext_def)

text \<open>
  Claim C5. In list-only mode, a dispatched benchmark whose name matches the filter adds
  exactly one line, its name, to the output, whatever its body is: the body is not
  invoked, so no handle is built and no engine operation is made.
\<close>

theorem list_only:
  assumes "ListBenches conf" "BenchFilter conf name" "\<not> blocked w"
  shows "runBench conf name p f w = w\<lparr>trace := trace w @ [PrintEv name]\<rparr> \<and>
         \<not> invokes conf name p w"
  using assms by (simp add: invokes_iff runBench_def Println_ext ext_def)

theorem list_only_witness:
  "runBench (defaultConf\<lparr>ListBenches := True\<rparr>) ''table reads'' 1 (body_table_reads 1) w0 =
     w0\<lparr>trace := [PrintEv ''table reads'']\<rparr> \<and>
   \<not> invokes (defaultConf\<lparr>ListBenches := True\<rparr>) ''table reads'' 1 w0"
  using list_only [of "defaultConf\<lparr>ListBenches := True\<rparr>" "''table reads''" w0 1
      "body_table_reads 1"]
  by (simp add: defaultConf_simps w0_simps)

section \<open>The handle is finished once\<close>

text \<open>
  Claim C6. Each of the seven benchmarks of \<^verbatim>\<open>main\<close>, when executed, finishes its
  handle exactly once and then releases it: the run adds one \<^verbatim>\<open>finish\<close> and one final
  \<^verbatim>\<open>stop\<close>, no goroutine finishes the handle, and the body itself has finished it
  exactly when the latch says so, in which case the dispatcher does not finish it again.
\<close>

theorem single_finish:
  assumes "(name, p, f) \<in> set (benchmarks kiters par k1 k2)"
    and "BenchFilter conf name" "\<not> ListBenches conf" "\<not> blocked w"
  shows "count_list (added w (runBench conf name p f w)) FinishEv = 1
       \<and> count_list (added w (runBench conf name p f w)) StopEv = 1
       \<and> last (added w (runBench conf name p f w)) = StopEv
       \<and> (\<forall>g \<in> set (started w (runBench conf name p f w)). FinishEv \<notin> set g)
       \<and> count_list (added w (f (newBench conf name p w))) FinishEv =
           (if IsFinished (f (newBench conf name p w)) then 1 else 0)"
  using assms(1)
proof (cases rule: benchmarks_cases)
  case 1
  then show ?thesis using assms(2-)
    by (simp add: run_closed added_closed started_closed)
       (simp add: body_closed newBench_ext ext_def IsFinished_def added_def)
next
  case 2
  then show ?thesis using assms(2-)
    by (simp add: run_closed added_closed started_closed)
       (simp add: body_closed newBench_ext ext_def IsFinished_def added_def)
next
  case 3
  then show ?thesis using assms(2-)
    by (simp add: run_closed added_closed started_closed)
       (simp add: body_closed newBench_ext ext_def IsFinished_def added_def)
next
  case 4
  then show ?thesis using assms(2-)
    by (simp add: run_closed added_closed started_closed)
       (simp add: body_closed newBench_ext ext_def IsFinished_def added_def)
next
  case 5
  then show ?thesis using assms(2-)
    by (simp add: run_closed added_closed started_closed count_map_other count_replicate)
       (simp add: body_closed newBench_ext ext_def IsFinished_def added_def
         count_map_other count_replicate)
next
  case 6
  then show ?thesis using assms(2-)
    by (simp add: run_closed added_closed started_closed count_map_other count_replicate)
       (simp add: body_closed newBench_ext ext_def IsFinished_def added_def
         count_map_other count_replicate)
next
  case 7
  then show ?thesis using assms(2-)
    by (simp add: run_closed added_closed started_closed count_map_other count_replicate)
       (simp add: body_closed newBench_ext ext_def IsFinished_def added_def
         count_map_other count_replicate)
qed

theorem single_finish_witness:
  "count_list (added w0 (runBench defaultConf ''write + compact'' 1
      (body_write_compact 2 1) w0)) FinishEv = 1 \<and>
   last (added w0 (runBench defaultConf ''write + compact'' 1
      (body_write_compact 2 1) w0)) = StopEv \<and>
   IsFinished (body_write_compact 2 1 (newBench defaultConf ''write + compact'' 1 w0))"
proof -
  have m: "(''write + compact'', 1, body_write_compact 2 1) \<in> set (benchmarks 1 2 2 0)"
    by (simp add: benchmarks_def)
  have "IsFinished (body_write_compact 2 1 (newBench defaultConf ''write + compact'' 1 w0))"
    by (simp add: body_closed newBench_ext ext_def IsFinished_def w0_simps)
  with single_finish [OF m defaultConf_simps(1) defaultConf_simps(2) w0_simps(1)]
  show ?thesis by simp
qed

section \<open>Sequential writes\<close>

text \<open>
  Claim C7. With \<^verbatim>\<open>kiters = 1\<close>, an executed "writes" benchmark builds its handle, makes
  exactly 1000 calls of \<^verbatim>\<open>Write(0)\<close>, each followed by its \<^verbatim>\<open>finishOp(0, _)\<close>, then
  one \<^verbatim>\<open>Compact\<close>; the body returns with the handle unfinished, the dispatcher finishes
  it and releases it. No goroutine is started and no channel is made.
\<close>

theorem writes_scenario:
  assumes "BenchFilter conf ''writes''" "\<not> ListBenches conf" "\<not> blocked w"
  shows "runBench conf ''writes'' 1 (body_writes 1) w =
           w\<lparr>trace := trace w @ NewBenchEv ''writes'' 1 #
                reps 1000 [WriteEv 0, FinishOpEv 0] @ [CompactEv, FinishEv, StopEv],
             finishedFlag := True\<rparr>
         \<and> \<not> IsFinished (body_writes 1 (newBench conf ''writes'' 1 w))"
proof -
  have n: "nat (int64 (1000 * 1)) = 1000" by (simp add: int64_def)
  have "body_writes 1 (newBench conf ''writes'' 1 w) =
     w\<lparr>trace := trace w @ NewBenchEv ''writes'' 1 #
                reps 1000 [WriteEv 0, FinishOpEv 0] @ [CompactEv], finishedFlag := False\<rparr>"
    using assms n by (simp add: body_writes_closed newBench_ext ext_def)
  then show ?thesis using run_writes [OF assms, of 1 1] n by (simp add: IsFinished_def)
qed

theorem writes_scenario_witness:
  "trace (runBench defaultConf ''writes'' 1 (body_writes 1) w0) =
     NewBenchEv ''writes'' 1 # reps 1000 [WriteEv 0, FinishOpEv 0] @
     [CompactEv, FinishEv, StopEv]
   \<and> goroutines (runBench defaultConf ''writes'' 1 (body_writes 1) w0) = []
   \<and> count_list (trace (runBench defaultConf ''writes'' 1 (body_writes 1) w0)) (WriteEv 0)
       = 1000"
  using writes_scenario [of defaultConf w0] by (simp add: defaultConf_simps w0_simps)

section \<open>Loops that do not run\<close>

lemma product_not_positive:
  assumes "- 9223372036854775 \<le> kiters" "kiters \<le> 0"
  shows "int64 (1000 * kiters) \<le> 0"
proof -
  from assms have "int64 (1000 * kiters) = 1000 * kiters"
    by (intro int64_no_wrap) simp_all
  with assms show ?thesis by simp
qed

text \<open>
  Claim C10, as amended. For every \<^verbatim>\<open>kiters\<close> from -9223372036854775 to 0 (the
  non-positive values whose product \<^verbatim>\<open>1000*kiters\<close> fits Go's \<^verbatim>\<open>int\<close>), every
  executed benchmark makes no \<^verbatim>\<open>Write\<close> and no \<^verbatim>\<open>Read\<close>, neither in \<^verbatim>\<open>main\<close>
  nor in a goroutine it starts, and still finishes its handle once and releases it last.
  Its setup and teardown still occur, benchmark by benchmark: "writes" builds its handle,
  compacts once, finishes and releases; the others still fill, compact and reset as their
  bodies say, start their daemon and their workers and wait for them; a worker does
  nothing but signal its completion.
\<close>

theorem zero_iterations:
  assumes "- 9223372036854775 \<le> kiters" "kiters \<le> 0"
    and "\<not> ListBenches conf" "\<not> blocked w"
  shows "(\<forall>(name, p, f) \<in> set (benchmarks kiters par k1 k2). BenchFilter conf name \<longrightarrow>
            list_all (\<lambda>e. \<not> is_op e) (added w (runBench conf name p f w)) \<and>
            (\<forall>g \<in> set (started w (runBench conf name p f w)). list_all (\<lambda>e. \<not> is_op e) g) \<and>
            count_list (added w (runBench conf name p f w)) FinishEv = 1 \<and>
            count_list (added w (runBench conf name p f w)) StopEv = 1 \<and>
            last (added w (runBench conf name p f w)) = StopEv) \<and>
   (BenchFilter conf ''writes'' \<longrightarrow>
           added w (runBench conf ''writes'' 1 (body_writes kiters) w) =
             [NewBenchEv ''writes'' 1, CompactEv, FinishEv, StopEv] \<and>
           started w (runBench conf ''writes'' 1 (body_writes kiters) w) = []) \<and>
   (BenchFilter conf ''write + compact'' \<longrightarrow>
           added w (runBench conf ''write + compact'' 1 (body_write_compact k1 kiters) w) =
             [NewBenchEv ''write + compact'' 1, FillEv, ResetEv, GoEv Daemon, FinishEv,
              RecvEv (length (chans w)) (VInt (int64 (int k1))),
              PrintEv (''  finished '' @ itoa (int64 (int k1)) @ '' compactions''), StopEv] \<and>
           started w (runBench conf ''write + compact'' 1 (body_write_compact k1 kiters) w) =
             [daemon_trace k1 (length (chans w))]) \<and>
   (BenchFilter conf ''rbuf reads'' \<longrightarrow>
           added w (runBench conf ''rbuf reads'' 1 (body_rbuf_reads kiters) w) =
             [NewBenchEv ''rbuf reads'' 1, FillEv, ResetEv, FinishEv, StopEv] \<and>
           started w (runBench conf ''rbuf reads'' 1 (body_rbuf_reads kiters) w) = []) \<and>
   (BenchFilter conf ''table reads'' \<longrightarrow>
           added w (runBench conf ''table reads'' 1 (body_table_reads kiters) w) =
             [NewBenchEv ''table reads'' 1, FillEv, CompactEv, CompactEv, ResetEv,
              FinishEv, StopEv] \<and>
           started w (runBench conf ''table reads'' 1 (body_table_reads kiters) w) = []) \<and>
   (BenchFilter conf (''table reads (par='' @ itoa par @ '')'') \<longrightarrow>
           added w (runBench conf (''table reads (par='' @ itoa par @ '')'') par
               (body_table_reads_par kiters par) w) =
             [NewBenchEv (''table reads (par='' @ itoa par @ '')'') par,
              FillEv, CompactEv, CompactEv, ResetEv] @
             map (\<lambda>j. GoEv (Worker (int j))) [0..<nat par] @
             replicate (nat par) (RecvEv (length (chans w)) (VBool True)) @
             [FinishEv, StopEv] \<and>
           started w (runBench conf (''table reads (par='' @ itoa par @ '')'') par
               (body_table_reads_par kiters par) w) =
             replicate (nat par) [SendEv (length (chans w)) (VBool True)]) \<and>
   (BenchFilter conf (''rbuf reads (par='' @ itoa par @ '')'') \<longrightarrow>
           added w (runBench conf (''rbuf reads (par='' @ itoa par @ '')'') par
               (body_rbuf_reads_par kiters par) w) =
             [NewBenchEv (''rbuf reads (par='' @ itoa par @ '')'') par,
              FillEv, CompactEv, ResetEv] @
             map (\<lambda>j. GoEv (Worker (int j))) [0..<nat par] @
             replicate (nat par) (RecvEv (length (chans w)) (VBool True)) @
             [FinishEv, StopEv] \<and>
           started w (runBench conf (''rbuf reads (par='' @ itoa par @ '')'') par
               (body_rbuf_reads_par kiters par) w) =
             replicate (nat par) [SendEv (length (chans w)) (VBool True)]) \<and>
   (BenchFilter conf (''read par='' @ itoa par @ '' + compact'') \<longrightarrow>
           added w (runBench conf (''read par='' @ itoa par @ '' + compact'') par
               (body_read_par_compact k2 kiters par) w) =
             [NewBenchEv (''read par='' @ itoa par @ '' + compact'') par,
              FillEv, CompactEv, ResetEv, GoEv Daemon] @
             map (\<lambda>j. GoEv (Worker (int j))) [0..<nat par] @
             replicate (nat par) (RecvEv (Suc (length (chans w))) (VBool True)) @
             [FinishEv, RecvEv (length (chans w)) (VInt (int64 (int k2))),
              PrintEv (''  finished '' @ itoa (int64 (int k2)) @ '' compactions''), StopEv] \<and>
           started w (runBench conf (''read par='' @ itoa par @ '' + compact'') par
               (body_read_par_compact k2 kiters par) w) =
             daemon_trace k2 (length (chans w)) #
             replicate (nat par) [SendEv (Suc (length (chans w))) (VBool True)])"
proof -
  from product_not_positive [OF assms(1,2)] have le: "int64 (1000 * kiters) \<le> 0" .
  then have z: "nat (int64 (1000 * kiters)) = 0" by simp
  have wt: "worker_trace kiters c tid = [SendEv c (VBool True)]" for c tid
    by (simp add: worker_trace_def z reps_0)
  have ws: "map (\<lambda>j. [SendEv c (VBool True)]) [0..<n] = replicate n [SendEv c (VBool True)]"
    for c n by (induction n) (simp_all add: replicate_append_same)
  have p1: "\<forall>(name, p, f) \<in> set (benchmarks kiters par k1 k2). BenchFilter conf name \<longrightarrow>
            list_all (\<lambda>e. \<not> is_op e) (added w (runBench conf name p f w)) \<and>
            (\<forall>g \<in> set (started w (runBench conf name p f w)). list_all (\<lambda>e. \<not> is_op e) g) \<and>
            count_list (added w (runBench conf name p f w)) FinishEv = 1 \<and>
            count_list (added w (runBench conf name p f w)) StopEv = 1 \<and>
            last (added w (runBench conf name p f w)) = StopEv"
  proof (intro ballI, clarify)
    fix name p f
    assume m: "(name, p, f) \<in> set (benchmarks kiters par k1 k2)"
      and f: "BenchFilter conf name"
    from m show "list_all (\<lambda>e. \<not> is_op e) (added w (runBench conf name p f w)) \<and>
            (\<forall>g \<in> set (started w (runBench conf name p f w)). list_all (\<lambda>e. \<not> is_op e) g) \<and>
            count_list (added w (runBench conf name p f w)) FinishEv = 1 \<and>
            count_list (added w (runBench conf name p f w)) StopEv = 1 \<and>
            last (added w (runBench conf name p f w)) = StopEv"
    proof (cases rule: benchmarks_cases)
      case 1
      then show ?thesis using f assms(3,4) z
        by (simp add: run_closed added_closed started_closed reps_0)
    next
      case 2
      then show ?thesis using f assms(3,4) z
        by (simp add: run_closed added_closed started_closed reps_0 is_op_daemon)
    next
      case 3
      then show ?thesis using f assms(3,4) z
        by (simp add: run_closed added_closed started_closed reps_0)
    next
      case 4
      then show ?thesis using f assms(3,4) z
        by (simp add: run_closed added_closed started_closed reps_0)
    next
      case 5
      then show ?thesis using f assms(3,4) z
        by (simp add: run_closed added_closed started_closed count_map_other count_replicate
            noop_go noop_recv wt)
    next
      case 6
      then show ?thesis using f assms(3,4) z
        by (simp add: run_closed added_closed started_closed count_map_other count_replicate
            noop_go noop_recv wt)
    next
      case 7
      then show ?thesis using f assms(3,4) z
        by (simp add: run_closed added_closed started_closed count_map_other count_replicate
            noop_go noop_recv wt is_op_daemon)
    qed
  qed
  have p2: "BenchFilter conf ''writes'' \<longrightarrow>
           added w (runBench conf ''writes'' 1 (body_writes kiters) w) =
             [NewBenchEv ''writes'' 1, CompactEv, FinishEv, StopEv] \<and>
           started w (runBench conf ''writes'' 1 (body_writes kiters) w) = []"
    using assms(3,4) z by (simp add: run_closed added_closed started_closed reps_0)
  have p3: "BenchFilter conf ''write + compact'' \<longrightarrow>
           added w (runBench conf ''write + compact'' 1 (body_write_compact k1 kiters) w) =
             [NewBenchEv ''write + compact'' 1, FillEv, ResetEv, GoEv Daemon, FinishEv,
              RecvEv (length (chans w)) (VInt (int64 (int k1))),
              PrintEv (''  finished '' @ itoa (int64 (int k1)) @ '' compactions''), StopEv] \<and>
           started w (runBench conf ''write + compact'' 1 (body_write_compact k1 kiters) w) =
             [daemon_trace k1 (length (chans w))]"
    using assms(3,4) z by (simp add: run_closed added_closed started_closed reps_0)
  have p4: "BenchFilter conf ''rbuf reads'' \<longrightarrow>
           added w (runBench conf ''rbuf reads'' 1 (body_rbuf_reads kiters) w) =
             [NewBenchEv ''rbuf reads'' 1, FillEv, ResetEv, FinishEv, StopEv] \<and>
           started w (runBench conf ''rbuf reads'' 1 (body_rbuf_reads kiters) w) = []"
    using assms(3,4) z by (simp add: run_closed added_closed started_closed reps_0)
  have p5: "BenchFilter conf ''table reads'' \<longrightarrow>
           added w (runBench conf ''table reads'' 1 (body_table_reads kiters) w) =
             [NewBenchEv ''table reads'' 1, FillEv, CompactEv, CompactEv, ResetEv,
              FinishEv, StopEv] \<and>
           started w (runBench conf ''table reads'' 1 (body_table_reads kiters) w) = []"
    using assms(3,4) z by (simp add: run_closed added_closed started_closed reps_0)
  have p6: "BenchFilter conf (''table reads (par='' @ itoa par @ '')'') \<longrightarrow>
           added w (runBench conf (''table reads (par='' @ itoa par @ '')'') par
               (body_table_reads_par kiters par) w) =
             [NewBenchEv (''table reads (par='' @ itoa par @ '')'') par,
              FillEv, CompactEv, CompactEv, ResetEv] @
             map (\<lambda>j. GoEv (Worker (int j))) [0..<nat par] @
             replicate (nat par) (RecvEv (length (chans w)) (VBool True)) @
             [FinishEv, StopEv] \<and>
           started w (runBench conf (''table reads (par='' @ itoa par @ '')'') par
               (body_table_reads_par kiters par) w) =
             replicate (nat par) [SendEv (length (chans w)) (VBool True)]"
    using assms(3,4) by (simp add: run_closed added_closed started_closed wt ws)
  have p7: "BenchFilter conf (''rbuf reads (par='' @ itoa par @ '')'') \<longrightarrow>
           added w (runBench conf (''rbuf reads (par='' @ itoa par @ '')'') par
               (body_rbuf_reads_par kiters par) w) =
             [NewBenchEv (''rbuf reads (par='' @ itoa par @ '')'') par,
              FillEv, CompactEv, ResetEv] @
             map (\<lambda>j. GoEv (Worker (int j))) [0..<nat par] @
             replicate (nat par) (RecvEv (length (chans w)) (VBool True)) @
             [FinishEv, StopEv] \<and>
           started w (runBench conf (''rbuf reads (par='' @ itoa par @ '')'') par
               (body_rbuf_reads_par kiters par) w) =
             replicate (nat par) [SendEv (length (chans w)) (VBool True)]"
    using assms(3,4) by (simp add: run_closed added_closed started_closed wt ws)
  have p8: "BenchFilter conf (''read par='' @ itoa par @ '' + compact'') \<longrightarrow>
           added w (runBench conf (''read par='' @ itoa par @ '' + compact'') par
               (body_read_par_compact k2 kiters par) w) =
             [NewBenchEv (''read par='' @ itoa par @ '' + compact'') par,
              FillEv, CompactEv, ResetEv, GoEv Daemon] @
             map (\<lambda>j. GoEv (Worker (int j))) [0..<nat par] @
             replicate (nat par) (RecvEv (Suc (length (chans w))) (VBool True)) @
             [FinishEv, RecvEv (length (chans w)) (VInt (int64 (int k2))),
              PrintEv (''  finished '' @ itoa (int64 (int k2)) @ '' compactions''), StopEv] \<and>
           started w (runBench conf (''read par='' @ itoa par @ '' + compact'') par
               (body_read_par_compact k2 kiters par) w) =
             daemon_trace k2 (length (chans w)) #
             replicate (nat par) [SendEv (Suc (length (chans w))) (VBool True)]"
    using assms(3,4) by (simp add: run_closed added_closed started_closed wt ws)
  from p1 p2 p3 p4 p5 p6 p7 p8 show ?thesis by (intro conjI)
qed

theorem zero_iterations_witness:
  "added w0 (runBench defaultConf ''writes'' 1 (body_writes (- 5)) w0) =
     [NewBenchEv ''writes'' 1, CompactEv, FinishEv, StopEv] \<and>
   added w0 (runBench defaultConf ''table reads'' 1 (body_table_reads (- 5)) w0) =
     [NewBenchEv ''table reads'' 1, FillEv, CompactEv, CompactEv, ResetEv, FinishEv, StopEv] \<and>
   count_list (added w0 (runBench defaultConf ''writes'' 1 (body_writes (- 5)) w0)) CompactEv
     = 1 \<and>
   started w0 (runBench defaultConf ''table reads (par=2)'' 2
       (body_table_reads_par (- 5) 2) w0) =
     [[SendEv 0 (VBool True)], [SendEv 0 (VBool True)]]"
proof -
  have k: "- 9223372036854775 \<le> (- 5 :: int)" "(- 5 :: int) \<le> 0" by simp_all
  from zero_iterations [OF k defaultConf_simps(2) w0_simps(1), of 2] show ?thesis
    by (simp add: defaultConf_simps w0_simps itoa_2 numeral_2_eq_2)
qed

text \<open>
  The claim as worded, for every \<^verbatim>\<open>kiters\<close> that is not positive, fails where the product
  wraps around: with \<^verbatim>\<open>-kiters=-9223372036854776\<close> the bound \<^verbatim>\<open>1000*kiters\<close> is
  9223372036854775616 and the "writes" benchmark makes that many writes.
\<close>

theorem zero_iterations_wraps:
  "(- 9223372036854776 :: int) \<le> 0 \<and>
   int64 (1000 * (- 9223372036854776)) = 9223372036854775616 \<and>
   count_list (added w0 (runBench defaultConf ''writes'' 1
       (body_writes (- 9223372036854776)) w0)) (WriteEv 0) = 9223372036854775616"
proof -
  have k: "int64 (- 9223372036854776000) = 9223372036854775616"
    by (simp add: int64_def)
  show ?thesis
    using run_writes [OF defaultConf_simps(1) defaultConf_simps(2) w0_simps(1),
        of "''writes''" 1 "- 9223372036854776"]
    by (simp add: k added_def w0_simps)
qed

section \<open>The order of the steps of one benchmark\<close>

text \<open>
  Claim C2, as amended. In every executed benchmark the steps of \<^verbatim>\<open>main\<close> come in this
  order: Fill and Reset, then the start of the daemon, then the fan-out, then the join,
  then the finish of the handle, then the daemon stop (the receive of the compaction
  count), then the release of the handle. The two benchmarks that start a daemon finish
  the handle themselves, before they stop the daemon; both steps occur in them.
\<close>

theorem step_order:
  assumes "(name, p, f) \<in> set (benchmarks kiters par k1 k2)"
    and "BenchFilter conf name" "\<not> ListBenches conf" "\<not> blocked w"
  shows "in_order code_order (added w (runBench conf name p f w))
       \<and> (name = ''write + compact'' \<or> name = ''read par='' @ itoa par @ '' + compact'' \<longrightarrow>
            4 \<in> set (List.map_filter code_order (added w (runBench conf name p f w))) \<and>
            5 \<in> set (List.map_filter code_order (added w (runBench conf name p f w))))"
  using assms(1)
proof (cases rule: benchmarks_cases)
  case 1
  then show ?thesis using assms(2-)
    by (simp add: run_closed added_closed order_simps)
next
  case 2
  then show ?thesis using assms(2-)
    by (simp add: run_closed added_closed order_simps)
next
  case 3
  then show ?thesis using assms(2-)
    by (simp add: run_closed added_closed order_simps)
next
  case 4
  then show ?thesis using assms(2-)
    by (simp add: run_closed added_closed order_simps)
next
  case 5
  then show ?thesis using assms(2-)
    by (simp add: run_closed added_closed order_simps)
next
  case 6
  then show ?thesis using assms(2-)
    by (simp add: run_closed added_closed order_simps)
next
  case 7
  then show ?thesis using assms(2-)
    by (simp add: run_closed added_closed order_simps)
qed

theorem step_order_witness:
  "in_order code_order
     (added w0 (runBench defaultConf ''write + compact'' 1 (body_write_compact 3 1) w0)) \<and>
   4 \<in> set (List.map_filter code_order
     (added w0 (runBench defaultConf ''write + compact'' 1 (body_write_compact 3 1) w0))) \<and>
   5 \<in> set (List.map_filter code_order
     (added w0 (runBench defaultConf ''write + compact'' 1 (body_write_compact 3 1) w0)))"
proof -
  have m: "(''write + compact'', 1, body_write_compact 3 1) \<in> set (benchmarks 1 2 3 0)"
    by (simp add: benchmarks_def)
  from step_order [OF m defaultConf_simps(1) defaultConf_simps(2) w0_simps(1)]
  show ?thesis by simp
qed

text \<open>
  In the order the specification gives, the daemon stop comes before the finish. The
  "write + compact" benchmark, run with \<^verbatim>\<open>kiters = 1\<close> while the daemon completes three
  compactions, does it the other way round.
\<close>

theorem step_order_spec_fails:
  "added w0 (runBench defaultConf ''write + compact'' 1 (body_write_compact 3 1) w0) =
     [NewBenchEv ''write + compact'' 1, FillEv, ResetEv, GoEv Daemon] @
     reps 1000 [WriteEv 0, FinishOpEv 0] @
     [FinishEv, RecvEv 0 (VInt 3), PrintEv ''  finished 3 compactions'', StopEv] \<and>
   \<not> in_order spec_order
     (added w0 (runBench defaultConf ''write + compact'' 1 (body_write_compact 3 1) w0))"
proof -
  have n: "nat (int64 1000) = 1000" by (simp add: int64_def)
  have v: "int64 3 = 3" by (simp add: int64_def)
  have i: "itoa 3 = ''3''" by (simp add: itoa_def digits.simps)
  show ?thesis
    using run_write_compact [OF defaultConf_simps(1) defaultConf_simps(2) w0_simps(1),
        of "''write + compact''" 1 3 1]
    by (simp add: n v i added_def w0_simps order_simps)
qed

section \<open>The matcher decides the language of an expression\<close>

lemma Nil_in_conc: "[] \<in> conc A B \<longleftrightarrow> [] \<in> A \<and> [] \<in> B"
  by (auto simp: conc_def)

lemma Cons_in_conc:
  "c # u \<in> conc A B \<longleftrightarrow> u \<in> conc {w. c # w \<in> A} B \<or> ([] \<in> A \<and> c # u \<in> B)"
proof
  assume "c # u \<in> conc A B"
  then obtain a b where ab: "c # u = a @ b" "a \<in> A" "b \<in> B" by (auto simp: conc_def)
  show "u \<in> conc {w. c # w \<in> A} B \<or> ([] \<in> A \<and> c # u \<in> B)"
  proof (cases a)
    case Nil
    with ab show ?thesis by simp
  next
    case (Cons x a')
    with ab have "u = a' @ b" "c # a' \<in> A" by simp_all
    with ab(3) show ?thesis unfolding conc_def by blast
  qed
next
  assume "u \<in> conc {w. c # w \<in> A} B \<or> ([] \<in> A \<and> c # u \<in> B)"
  then show "c # u \<in> conc A B"
  proof
    assume "u \<in> conc {w. c # w \<in> A} B"
    then obtain a b where "u = a @ b" "c # a \<in> A" "b \<in> B" by (auto simp: conc_def)
    then have "c # u = (c # a) @ b" by simp
    with \<open>c # a \<in> A\<close> \<open>b \<in> B\<close> show ?thesis unfolding conc_def by blast
  next
    assume "[] \<in> A \<and> c # u \<in> B"
    then have "c # u = [] @ (c # u)" "[] \<in> A" "c # u \<in> B" by simp_all
    then show ?thesis unfolding conc_def by blast
  qed
qed

lemma star_Cons_split:
  assumes "w \<in> star A" "w = c # u"
  shows "u \<in> conc {w. c # w \<in> A} (star A)"
  using assms
proof (induction arbitrary: u rule: star.induct)
  case star_Nil
  then show ?case by simp
next
  case (star_step a v)
  show ?case
  proof (cases a)
    case Nil
    with star_step show ?thesis by simp
  next
    case (Cons x a')
    with star_step.prems have "u = a' @ v" "x = c" by simp_all
    with Cons star_step.hyps show ?thesis unfolding conc_def by blast
  qed
qed

lemma Cons_in_star: "c # u \<in> star A \<longleftrightarrow> u \<in> conc {w. c # w \<in> A} (star A)"
proof
  assume "c # u \<in> star A"
  then show "u \<in> conc {w. c # w \<in> A} (star A)" by (rule star_Cons_split) simp
next
  assume "u \<in> conc {w. c # w \<in> A} (star A)"
  then obtain a v where "u = a @ v" "c # a \<in> A" "v \<in> star A" by (auto simp: conc_def)
  then show "c # u \<in> star A" using star_step [of "c # a" A v] by simp
qed

lemma nullable_lang: "nullable r \<longleftrightarrow> [] \<in> lang r"
  by (induction r) (auto simp: Nil_in_conc star_Nil)

lemma deriv_lang: "u \<in> lang (deriv c r) \<longleftrightarrow> c # u \<in> lang r"
proof (induction r arbitrary: u)
  case (Cat r s)
  have "{w. c # w \<in> lang r} = lang (deriv c r)" using Cat.IH(1) by auto
  then show ?case using Cat.IH(2)
    by (auto simp: Cons_in_conc [of c u "lang r"] nullable_lang)
next
  case (Star r)
  have "{w. c # w \<in> lang r} = lang (deriv c r)" using Star.IH by auto
  then show ?case by (simp add: Cons_in_star)
next
  case (Plus r)
  have d: "{w. c # w \<in> lang r} = lang (deriv c r)" using Plus.IH by auto
  have "[] \<in> lang r \<Longrightarrow> c # u \<in> star (lang r) \<Longrightarrow> u \<in> conc (lang (deriv c r)) (star (lang r))"
    by (simp add: Cons_in_star d)
  then show ?case using d by (auto simp: Cons_in_conc [of c u "lang r"])
qed auto

lemma fullmatch_lang: "fullmatch r u \<longleftrightarrow> u \<in> lang r"
  unfolding fullmatch_def
  by (induction u arbitrary: r) (simp_all add: nullable_lang deriv_lang)

lemma MatchString_sublist: "MatchString r s \<longleftrightarrow> (\<exists>u. sublist u s \<and> u \<in> lang r)"
  by (auto simp: MatchString_def list_ex_iff fullmatch_lang)





lemma parse_dotstar: "parse [] ([], []) False ''.*'' = Inr (Star AnyChar)"
  by (simp add: parse.simps unsupported_def closeFrame_def repeatOp_def skipLazy_def)

lemma parse_open: "parse [] ([], []) False ''('' = Inl ''missing closing )''"
  by (simp add: parse.simps unsupported_def closeFrame_def repeatOp_def skipLazy_def)

lemma MatchString_dotstar: "MatchString (Star AnyChar) name"
  by (auto simp: MatchString_sublist intro: star_Nil)









lemma goCompile_dotstar: "goCompile ''.*'' = Inr (MatchString (Star AnyChar))"
  by (simp only: goCompile_def parse_dotstar sum.case)

lemma goCompile_open: "goCompile ''('' = Inl ''error parsing regexp: missing closing )''"
  by (simp add: goCompile_def parse_open)

section \<open>The filter of the configuration\<close>

lemma main_fatal:
  assumes "run_flag fl \<noteq> []" "regexp_Compile e (run_flag fl) = Inl err"
  shows "main e fl =
    (Fatal, w0\<lparr>trace := [LogFatalEv (''invalid BenchFilter '' @ run_flag fl @ '': '' @ err)]\<rparr>)"
  using assms by (simp add: main_def compileFilter_def emit_def w0_def)

lemma default_filter_lists_all:
  "main env0 (flags0\<lparr>list_flag := True\<rparr>) =
     (Returned, w0\<lparr>trace := map PrintEv [''writes'', ''write + compact'', ''rbuf reads'',
        ''table reads'', ''table reads (par=2)'', ''rbuf reads (par=2)'',
        ''read par=2 + compact'']\<rparr>)"
  by (simp add: main_def compileFilter_def env0_def flags0_def goCompile_dotstar
      MatchString_dotstar runAll_def runBench_def Println_ext ext_def w0_simps itoa_2)

text \<open>
  Claim C8. When the pattern given with \<^verbatim>\<open>-run\<close> does not compile, \<^verbatim>\<open>main\<close> logs
  the error and exits with a failure before anything else happens: the trace holds the
  message alone, no benchmark is dispatched. When no pattern is given, the filter is the
  compiled \<^verbatim>\<open>.*\<close>, which matches every name.
\<close>

theorem malformed_filter:
  "(run_flag fl \<noteq> [] \<and> regexp_Compile e (run_flag fl) = Inl err \<longrightarrow>
      main e fl =
        (Fatal,
         w0\<lparr>trace := [LogFatalEv (''invalid BenchFilter '' @ run_flag fl @ '': '' @ err)]\<rparr>))
   \<and> (run_flag fl = [] \<and> regexp_Compile e = goCompile \<longrightarrow>
        (\<exists>re. compileFilter e (run_flag fl) = Inr re \<and> (\<forall>name. re name)))"
proof (intro conjI impI)
  assume "run_flag fl \<noteq> [] \<and> regexp_Compile e (run_flag fl) = Inl err"
  then show "main e fl =
        (Fatal,
         w0\<lparr>trace := [LogFatalEv (''invalid BenchFilter '' @ run_flag fl @ '': '' @ err)]\<rparr>)"
    by (simp add: main_fatal)
next
  assume "run_flag fl = [] \<and> regexp_Compile e = goCompile"
  then have "compileFilter e (run_flag fl) = Inr (MatchString (Star AnyChar))"
    by (simp add: compileFilter_def goCompile_dotstar)
  then show "\<exists>re. compileFilter e (run_flag fl) = Inr re \<and> (\<forall>name. re name)"
    by (auto intro: MatchString_dotstar)
qed

theorem malformed_filter_witness:
  "main env0 (flags0\<lparr>run_flag := ''(''\<rparr>) =
     (Fatal, w0\<lparr>trace := [LogFatalEv
        ''invalid BenchFilter (: error parsing regexp: missing closing )'']\<rparr>)
   \<and> (\<exists>re. compileFilter env0 (run_flag flags0) = Inr re \<and> (\<forall>name. re name))"
  using malformed_filter [of "flags0\<lparr>run_flag := ''(''\<rparr>" env0
      "''error parsing regexp: missing closing )''"]
    malformed_filter [of flags0 env0]
  by (simp add: env0_def flags0_def goCompile_open)

section \<open>The filter matches anywhere in the name\<close>




section \<open>The stop handshake, for every schedule\<close>

lemma dinv_init: "dinv dinit"
  unfolding dinv_def by (rule exI [of _ 0]) (simp add: dinit_def reps_0 int64_0)

lemma dinv_step:
  assumes "dinv s"
  shows "dinv (dstep who s)"
proof -
  from assms obtain k where k: "numCompactions s = int64 (int k)"
    and shape: "case dpc s of
        AtSelect \<Rightarrow> dtrace s = reps k [CompactBegin, CompactEnd] \<and>
          (caller s = NotYet \<or> caller s = Waiting)
      | InCompact \<Rightarrow> dtrace s = reps k [CompactBegin, CompactEnd] @ [CompactBegin] \<and>
          (caller s = NotYet \<or> caller s = Waiting)
      | AtIncrement \<Rightarrow>
          dtrace s = reps k [CompactBegin, CompactEnd] @ [CompactBegin, CompactEnd] \<and>
          (caller s = NotYet \<or> caller s = Waiting)
      | DaemonReturned \<Rightarrow>
          dtrace s = reps k [CompactBegin, CompactEnd] @ [Handshake (int64 (int k))] \<and>
          caller s = Got (int64 (int k))"
    unfolding dinv_def by blast
  show ?thesis
  proof (cases "who = TheDaemon \<and> dpc s = AtIncrement")
    case True
    have "int64 (int64 (int k) + 1) = int64 (int (Suc k))"
      using int64_succ [of "int k"] by (simp add: add.commute)
    with True k shape show ?thesis
      unfolding dinv_def by (intro exI [of _ "Suc k"]) (simp add: reps_Suc)
  next
    case False
    with k shape show ?thesis
      unfolding dinv_def
      by (intro exI [of _ k]) (cases who; cases "dpc s"; cases "caller s"; simp)
  qed
qed

lemma dinv_run: "dinv s \<Longrightarrow> dinv (drun sched s)"
  unfolding drun_def by (induction sched arbitrary: s) (simp_all add: dinv_step)




lemma completed_reps:
  "completed (reps k [CompactBegin, CompactEnd]) = int k"
  "completed (reps k [CompactBegin, CompactEnd] @ [CompactBegin]) = int k"
  "completed (reps k [CompactBegin, CompactEnd] @ [CompactBegin, CompactEnd]) = int k + 1"
  "completed (reps k [CompactBegin, CompactEnd] @ [Handshake v]) = int k"
  by (simp_all add: completed_def filter_reps)

lemma begun_reps:
  "begun (reps k [CompactBegin, CompactEnd]) = int k"
  "begun (reps k [CompactBegin, CompactEnd] @ [CompactBegin]) = int k + 1"
  "begun (reps k [CompactBegin, CompactEnd] @ [CompactBegin, CompactEnd]) = int k + 1"
  "begun (reps k [CompactBegin, CompactEnd] @ [Handshake v]) = int k"
  by (simp_all add: begun_def filter_reps)

text \<open>What the invariant says of a state in which the caller holds a value.\<close>

lemma got_shape:
  assumes "dinv s" "caller s = Got v"
  shows "dpc s = DaemonReturned \<and>
     dtrace s = reps (nat (completed (dtrace s))) [CompactBegin, CompactEnd] @ [Handshake v] \<and>
     v = int64 (completed (dtrace s)) \<and> begun (dtrace s) = completed (dtrace s)"
proof -
  from assms(1) obtain k where "case dpc s of
        AtSelect \<Rightarrow> caller s = NotYet \<or> caller s = Waiting
      | InCompact \<Rightarrow> caller s = NotYet \<or> caller s = Waiting
      | AtIncrement \<Rightarrow> caller s = NotYet \<or> caller s = Waiting
      | DaemonReturned \<Rightarrow>
          dtrace s = reps k [CompactBegin, CompactEnd] @ [Handshake (int64 (int k))] \<and>
          caller s = Got (int64 (int k))"
    unfolding dinv_def by (cases "dpc s") auto
  with assms(2) show ?thesis
    by (cases "dpc s") (simp_all add: completed_reps begun_reps)
qed







subsection \<open>Every count can be received, and the two views of the daemon agree\<close>





lemma map_filter_reps: "List.map_filter f (reps k es) = reps k (List.map_filter f es)"
  by (induction k) (simp_all add: reps_def map_filter_app List.map_filter_simps)

lemma reps_single: "reps k [x] = replicate k x"
  by (induction k) (simp_all add: reps_def)

lemma daemon_views_agree:
  assumes "caller (drun sched dinit) = Got v"
  shows "List.map_filter (dview c) (dtrace (drun sched dinit)) =
           daemon_trace (nat (completed (dtrace (drun sched dinit)))) c"
proof -
  let ?s = "drun sched dinit"
  have "dinv ?s" by (simp add: dinv_run dinv_init)
  note r = got_shape [OF this assms]
  note tr = r [THEN conjunct2, THEN conjunct1]
  note v = r [THEN conjunct2, THEN conjunct2, THEN conjunct1]
  have "0 \<le> completed (dtrace ?s)" by (simp add: completed_def)
  with v show ?thesis
    by (subst tr)
       (simp add: daemon_trace_def map_filter_app map_filter_reps List.map_filter_simps
         reps_single)
qed

section \<open>The fan-out and its join, for every schedule\<close>

lemma finv_init: "finv par n finit"
  by (simp add: finv_def finit_def returned_def)

lemma returned_append: "returned (ws @ [(t, pc)]) = returned ws + (if pc = WorkerReturned then 1 else 0)"
  by (simp add: returned_def)

lemma returned_update:
  "j < length ws \<Longrightarrow> snd (ws ! j) \<noteq> WorkerReturned \<Longrightarrow>
   returned (ws[j := (t, pc)]) = returned ws + (if pc = WorkerReturned then 1 else 0)"
proof (induction ws arbitrary: j)
  case Nil
  then show ?case by simp
next
  case (Cons w ws)
  then show ?case by (cases j) (auto simp: returned_def)
qed

lemma returned_le: "returned ws \<le> length ws"
  by (simp add: returned_def)

lemma map_fst_update:
  "j < length ws \<Longrightarrow> fst (ws ! j) = t \<Longrightarrow> map fst (ws[j := (t, pc)]) = map fst ws"
  by (simp add: map_update list_update_same_conv)

lemma fst_worker: "map fst ws = map int [0..<length ws] \<Longrightarrow> j < length ws \<Longrightarrow> fst (ws ! j) = int j"
  by (metis length_map nth_map nth_upt add_0)

lemma finv_main: 
  assumes "finv par n s"
  shows "finv par n (mainStep par s)"
proof (cases "mpc s")
  case (Spawning t)
  show ?thesis
  proof (cases "t < par")
    case True
    with assms Spawning show ?thesis
      apply (simp add: finv_def mainStep_def returned_append nth_append wok_def wlog_def reps_0)
      apply (intro conjI allI impI)
        apply (auto simp: less_Suc_eq)
      done
  next
    case False
    with assms Spawning show ?thesis
      by (auto simp add: finv_def mainStep_def)
  qed
next
  case (Joining t)
  with assms returned_le [of "workers s"] show ?thesis
    by (auto simp add: finv_def mainStep_def)
next
  case Past
  with assms show ?thesis by (simp add: finv_def mainStep_def)
qed


lemma finv_update:
  assumes inv: "finv par n s" and j: "j < length (workers s)"
    and pc: "snd (workers s ! j) = pc" "pc \<noteq> WorkerReturned"
    and ok: "wok n pc'"
    and log: "wlog n (int j) pc' = wlog n (int j) pc @ es"
    and own: "\<forall>e \<in> set es. (\<forall>tid. of_worker tid e \<longleftrightarrow> tid = int j) \<and> \<not> is_spawned e"
    and sig: "length (filter is_signal es) = (if pc' = WorkerReturned then 1 else 0)"
    and pos: "case m' of
                Spawning t \<Rightarrow> mpc s = Spawning t \<and> pc' \<noteq> WorkerReturned
              | Joining t \<Rightarrow> (mpc s = Joining t \<and> pc' \<noteq> WorkerReturned) \<or>
                             (mpc s = Joining (t - 1) \<and> pc' = WorkerReturned)
              | Past \<Rightarrow> mpc s = Past \<and> pc' \<noteq> WorkerReturned"
  shows "finv par n (s\<lparr>mpc := m', workers := (workers s)[j := (int j, pc')],
                        ftrace := ftrace s @ es\<rparr>)"
proof -
  let ?ws = "workers s" and ?ws' = "(workers s)[j := (int j, pc')]"
  let ?tr' = "ftrace s @ es"
  from inv have ids: "map fst ?ws = map int [0..<length ?ws]" by (simp add: finv_def)
  from fst_worker [OF ids j] have tid: "fst (?ws ! j) = int j" .
  have own_j: "filter (of_worker (int j)) es = es"
    using own by (simp add: filter_id_conv)
  have other: "filter (of_worker t) es = []" if "t \<noteq> int j" for t
    using own that by (simp add: filter_empty_conv)
  have nosp: "filter is_spawned es = []"
    using own by (simp add: filter_empty_conv)
  have c1: "map fst ?ws' = map int [0..<length ?ws']"
    using ids j tid by (simp add: map_fst_update)
  have c2: "length ?ws' \<le> nat par"
    using inv by (simp add: finv_def)
  have c3: "filter is_spawned ?tr' = map (\<lambda>j. Spawned (int j)) [0..<length ?ws']"
    using inv nosp by (simp add: finv_def)
  have c4: "wok n (snd (?ws' ! k)) \<and>
        filter (of_worker (int k)) ?tr' = wlog n (int k) (snd (?ws' ! k))"
    if k: "k < length ?ws'" for k
  proof (cases "k = j")
    case True
    from inv j pc have "filter (of_worker (int j)) (ftrace s) = wlog n (int j) pc"
      by (simp add: finv_def)
    with True j ok log own_j show ?thesis by simp
  next
    case False
    then have "int k \<noteq> int j" by simp
    from other [OF this] inv k False show ?thesis by (simp add: finv_def)
  qed
  have c5: "filter (of_worker t) ?tr' = []"
    if "\<not> (0 \<le> t \<and> t < int (length ?ws'))" for t
  proof -
    from that j have "t \<noteq> int j" by auto
    from other [OF this] inv that show ?thesis by (simp add: finv_def)
  qed
  have ret: "returned ?ws' = returned ?ws + (if pc' = WorkerReturned then 1 else 0)"
    using j pc by (simp add: returned_update)
  have c6: "length (filter is_signal ?tr') = returned ?ws'"
    using inv sig ret by (simp add: finv_def)
  have c7: "case m' of
        Spawning t \<Rightarrow> t = int (length ?ws') \<and> returned ?ws' = 0
      | Joining t \<Rightarrow> length ?ws' = nat par \<and> t = int (returned ?ws')
      | Past \<Rightarrow> length ?ws' = nat par \<and> returned ?ws' = nat par"
    using inv pos ret by (cases m') (auto simp: finv_def)
  from c1 c2 c3 c4 c5 c6 c7 show ?thesis
    unfolding finv_def by (cases m') simp_all
qed

lemma finv_worker:
  assumes inv: "finv par n s"
  shows "finv par n (workerStep par n j s)"
proof (cases "j < length (workers s)")
  case False
  with inv show ?thesis by (simp add: workerStep_def)
next
  case j: True
  from inv have ids: "map fst (workers s) = map int [0..<length (workers s)]"
    by (simp add: finv_def)
  from fst_worker [OF ids j] have tid: "fst (workers s ! j) = int j" .
  from inv j have wj: "wok n (snd (workers s ! j))"
    by (simp add: finv_def)
  have same: "s\<lparr>mpc := mpc s, workers := ws, ftrace := tr\<rparr> = s\<lparr>workers := ws, ftrace := tr\<rparr>"
    for ws tr by simp
  show ?thesis
  proof (cases "snd (workers s ! j)")
    case (AtLoop i)
    show ?thesis
    proof (cases "i < n")
      case True
      have "finv par n (s\<lparr>mpc := mpc s, workers := (workers s)[j := (int j, AfterRead i)],
                        ftrace := ftrace s @ [ReadCall (int j)]\<rparr>)"
        using inv j AtLoop wj True
        by (intro finv_update [where pc = "AtLoop i"])
           (auto simp: wok_def wlog_def split: mpc.splits)
      with j tid AtLoop True show ?thesis by (simp add: workerStep_def Let_def)
    next
      case False
      with wj AtLoop have e: "nat i = nat n" by (auto simp: wok_def)
      have "finv par n (s\<lparr>mpc := mpc s, workers := (workers s)[j := (int j, AtSend)],
                        ftrace := ftrace s @ []\<rparr>)"
        using inv j AtLoop e
        by (intro finv_update [where pc = "AtLoop i"])
           (auto simp: wok_def wlog_def split: mpc.splits)
      with j tid AtLoop False show ?thesis by (simp add: workerStep_def Let_def)
    qed
  next
    case (AfterRead i)
    with wj have e: "nat (i + 1) = Suc (nat i)" "0 \<le> i" "i < n" by (auto simp: wok_def)
    have "finv par n (s\<lparr>mpc := mpc s, workers := (workers s)[j := (int j, AtLoop (i + 1))],
                      ftrace := ftrace s @ [FinishOpCall (int j)]\<rparr>)"
      using inv j AfterRead e
      by (intro finv_update [where pc = "AfterRead i"])
         (auto simp: wok_def wlog_def reps_Suc split: mpc.splits)
    with j tid AfterRead show ?thesis by (simp add: workerStep_def Let_def)
  next
    case AtSend
    show ?thesis
    proof (cases "mpc s")
      case (Joining t)
      show ?thesis
      proof (cases "t < par")
        case True
        have "finv par n (s\<lparr>mpc := Joining (t + 1),
                          workers := (workers s)[j := (int j, WorkerReturned)],
                          ftrace := ftrace s @ [Signal (int j)]\<rparr>)"
          using inv j AtSend Joining
          by (intro finv_update [where pc = AtSend])
             (auto simp: wok_def wlog_def)
        with j tid AtSend Joining True show ?thesis by (simp add: workerStep_def Let_def)
      next
        case False
        with inv AtSend Joining j show ?thesis by (simp add: workerStep_def)
      qed
    next
      case (Spawning t)
      with inv AtSend j show ?thesis by (simp add: workerStep_def)
    next
      case Past
      with inv AtSend j show ?thesis by (simp add: workerStep_def)
    qed
  next
    case WorkerReturned
    with inv j show ?thesis by (simp add: workerStep_def)
  qed
qed

lemma finv_step: "finv par n s \<Longrightarrow> finv par n (fstep par n who s)"
  by (cases who) (simp_all add: finv_main finv_worker)

lemma finv_run: "finv par n s \<Longrightarrow> finv par n (frun par n sched s)"
  unfolding frun_def by (induction sched arbitrary: s) (simp_all add: finv_step)


lemma all_returned:
  assumes "returned ws = length ws" "w \<in> set ws"
  shows "snd w = WorkerReturned"
proof (rule ccontr)
  assume "snd w \<noteq> WorkerReturned"
  with assms(2) have "length (filter (\<lambda>w. snd w = WorkerReturned) ws) < length ws"
    by (intro length_filter_less) auto
  with assms(1) show False by (simp add: returned_def)
qed

lemma frun_append: "frun K n (xs @ ys) s = frun K n ys (frun K n xs s)"
  by (simp add: frun_def)

lemma frun_Cons: "frun K n (x # xs) s = frun K n xs (fstep K n x s)"
  by (simp add: frun_def)

lemma frun_Nil: "frun K n [] s = s"
  by (simp add: frun_def)

lemma main_leaves_spawning:
  assumes "finv K n s" "\<forall>t. mpc s = Spawning t \<longrightarrow> nat K - length (workers s) < m"
  shows "\<not> spawning (mpc (frun K n (replicate m TheMain) s))"
  using assms
proof (induction m arbitrary: s)
  case 0
  then show ?case by (cases "mpc s") (simp_all add: frun_Nil)
next
  case (Suc m)
  let ?s = "mainStep K s"
  have inv: "finv K n ?s" using Suc.prems(1) by (rule finv_main)
  have "\<forall>t. mpc ?s = Spawning t \<longrightarrow> nat K - length (workers ?s) < m"
  proof (cases "mpc s")
    case (Spawning t)
    with Suc.prems have t: "t = int (length (workers s))" and b: "nat K - length (workers s) < Suc m"
      by (simp_all add: finv_def)
    show ?thesis
    proof (cases "t < K")
      case True
      with t have "length (workers s) < nat K" by simp
      with Spawning True b show ?thesis by (simp add: mainStep_def)
    next
      case False
      with Spawning show ?thesis by (simp add: mainStep_def)
    qed
  next
    case (Joining t)
    then show ?thesis by (simp add: mainStep_def)
  next
    case Past
    then show ?thesis by (simp add: mainStep_def)
  qed
  from Suc.IH [OF inv this] show ?case by (simp add: frun_Cons)
qed

lemma not_all_returned:
  assumes "j < length ws" "snd (ws ! j) \<noteq> WorkerReturned"
  shows "returned ws < length ws"
proof -
  from assms have "ws ! j \<in> set ws" "\<not> snd (ws ! j) = WorkerReturned" by simp_all
  then show ?thesis unfolding returned_def by (intro length_filter_less)
qed

lemma worker_step_progress:
  assumes inv: "finv K n s" and ns: "\<not> spawning (mpc s)" and j: "j < length (workers s)"
  shows "need n (snd (workers (workerStep K n j s) ! j)) \<le> need n (snd (workers s ! j)) - 1 \<and>
         \<not> spawning (mpc (workerStep K n j s)) \<and>
         length (workers (workerStep K n j s)) = length (workers s)"
proof -
  from inv j have ok: "wok n (snd (workers s ! j))" by (simp add: finv_def)
  show ?thesis
  proof (cases "snd (workers s ! j)")
    case (AtLoop i)
    with j ns show ?thesis by (auto simp: workerStep_def Let_def)
  next
    case (AfterRead i)
    with j ns ok show ?thesis by (auto simp: workerStep_def Let_def wok_def)
  next
    case AtSend
    then have "returned (workers s) < length (workers s)"
      using j by (intro not_all_returned [of j]) simp_all
    moreover from inv ns have "length (workers s) = nat K" 
      by (cases "mpc s") (simp_all add: finv_def)
    ultimately have lt: "returned (workers s) < nat K" by simp
    show ?thesis
    proof (cases "mpc s")
      case (Spawning t)
      with ns show ?thesis by simp
    next
      case (Joining t)
      with inv have "t = int (returned (workers s))" by (simp add: finv_def)
      with lt have "t < K" by simp
      with Joining AtSend j show ?thesis by (simp add: workerStep_def Let_def)
    next
      case Past
      with inv lt show ?thesis by (simp add: finv_def)
    qed
  next
    case WorkerReturned
    with j ns show ?thesis by (simp add: workerStep_def Let_def)
  qed
qed

lemma worker_runs_to_end:
  assumes "finv K n s" "\<not> spawning (mpc s)" "j < length (workers s)"
    "need n (snd (workers s ! j)) \<le> m"
  shows "snd (workers (frun K n (replicate m (TheWorker j)) s) ! j) = WorkerReturned"
  using assms
proof (induction m arbitrary: s)
  case 0
  then show ?case by (cases "snd (workers s ! j)") (simp_all add: frun_Nil)
next
  case (Suc m)
  let ?s = "workerStep K n j s"
  note p = worker_step_progress [OF Suc.prems(1,2,3)]
  have "finv K n ?s" using Suc.prems(1) by (rule finv_worker)
  moreover from p have "\<not> spawning (mpc ?s)" "j < length (workers ?s)"
    using Suc.prems(3) by simp_all
  moreover from p [THEN conjunct1] Suc.prems(4) have "need n (snd (workers ?s ! j)) \<le> m"
    by arith
  ultimately have "snd (workers (frun K n (replicate m (TheWorker j)) ?s) ! j) = WorkerReturned"
    by (rule Suc.IH)
  then show ?case by (simp add: frun_Cons)
qed

lemma need_bound: "wok n pc \<Longrightarrow> need n pc \<le> 2 * nat n + 2"
  by (cases pc) (auto simp: wok_def)

lemma stays_returned_step:
  assumes "j < length (workers s)" "snd (workers s ! j) = WorkerReturned"
  shows "snd (workers (workerStep K n i s) ! j) = WorkerReturned"
proof (cases "i = j")
  case True
  with assms show ?thesis by (simp add: workerStep_def Let_def)
next
  case False
  with assms show ?thesis
    by (auto simp: workerStep_def Let_def split: wpc.splits mpc.splits)
qed

lemma worker_steps_keep:
  assumes "finv K n s" "\<not> spawning (mpc s)"
  shows "finv K n (frun K n (replicate m (TheWorker i)) s) \<and>
         \<not> spawning (mpc (frun K n (replicate m (TheWorker i)) s)) \<and>
         length (workers (frun K n (replicate m (TheWorker i)) s)) = length (workers s) \<and>
         (\<forall>j < length (workers s). snd (workers s ! j) = WorkerReturned \<longrightarrow>
            snd (workers (frun K n (replicate m (TheWorker i)) s) ! j) = WorkerReturned)"
  using assms
proof (induction m arbitrary: s)
  case 0
  then show ?case by (simp add: frun_Nil)
next
  case (Suc m)
  let ?s = "workerStep K n i s"
  have inv: "finv K n ?s" using Suc.prems(1) by (rule finv_worker)
  have keep: "\<not> spawning (mpc ?s)" "length (workers ?s) = length (workers s)"
  proof -
    show "\<not> spawning (mpc ?s)"
      using Suc.prems(2) by (auto simp: workerStep_def Let_def split: wpc.splits mpc.splits)
    show "length (workers ?s) = length (workers s)"
      by (auto simp: workerStep_def Let_def split: wpc.splits mpc.splits)
  qed
  from Suc.IH [OF inv keep(1)] keep(2) stays_returned_step [of _ s K n i]
  show ?case by (simp add: frun_Cons)
qed

lemma blocks_return_all:
  assumes "finv K n s" "\<not> spawning (mpc s)"
  shows "m \<le> nat K \<Longrightarrow>
    finv K n (frun K n (concat (map (block n) [0..<m])) s) \<and>
    \<not> spawning (mpc (frun K n (concat (map (block n) [0..<m])) s)) \<and>
    (\<forall>j < m. snd (workers (frun K n (concat (map (block n) [0..<m])) s) ! j) = WorkerReturned)"
proof (induction m)
  case 0
  with assms show ?case by (simp add: frun_Nil)
next
  case (Suc m)
  let ?s = "frun K n (concat (map (block n) [0..<m])) s"
  let ?e = "frun K n (block n m) ?s"
  from Suc have IH: "finv K n ?s" "\<not> spawning (mpc ?s)"
    "\<forall>j < m. snd (workers ?s ! j) = WorkerReturned" and m: "m < nat K" by simp_all
  from IH(1,2) have len: "length (workers ?s) = nat K"
    by (cases "mpc ?s") (simp_all add: finv_def)
  have e: "frun K n (concat (map (block n) [0..<Suc m])) s = ?e"
    by (simp add: frun_append)
  note k = worker_steps_keep [OF IH(1,2), of "2 * nat n + 2" m, folded block_def]
  from IH(1) m len have "wok n (snd (workers ?s ! m))" by (simp add: finv_def)
  then have "need n (snd (workers ?s ! m)) \<le> 2 * nat n + 2" by (rule need_bound)
  with IH(1,2) m len have r: "snd (workers ?e ! m) = WorkerReturned"
    unfolding block_def by (intro worker_runs_to_end) simp_all
  have "snd (workers ?e ! j) = WorkerReturned" if "j < Suc m" for j
  proof (cases "j = m")
    case True
    with r show ?thesis by simp
  next
    case False
    with that have "j < m" by simp
    with IH(3) k m len show ?thesis by simp
  qed
  with k show ?case unfolding e by simp
qed

lemma returned_all:
  assumes "\<forall>j < length ws. snd (ws ! j) = WorkerReturned"
  shows "returned ws = length ws"
proof -
  from assms have "\<forall>w \<in> set ws. snd w = WorkerReturned"
    by (metis in_set_conv_nth)
  then show ?thesis by (simp add: returned_def)
qed

text \<open>From every state a run can reach, the schedule \<open>one_by_one\<close> completes the join.\<close>

lemma join_completes:
  assumes "finv K n s"
  shows "mpc (frun K n (one_by_one K n) s) = Past"
proof -
  let ?s1 = "frun K n (replicate (Suc (nat K)) TheMain) s"
  let ?s2 = "frun K n (concat (map (block n) [0..<nat K])) ?s1"
  have i1: "finv K n ?s1" using assms by (rule finv_run)
  have n1: "\<not> spawning (mpc ?s1)"
    using assms by (intro main_leaves_spawning) auto
  from blocks_return_all [OF i1 n1, of "nat K"]
  have i2: "finv K n ?s2" and n2: "\<not> spawning (mpc ?s2)"
    and all: "\<forall>j < nat K. snd (workers ?s2 ! j) = WorkerReturned" by simp_all
  from i2 n2 have len: "length (workers ?s2) = nat K"
    by (cases "mpc ?s2") (simp_all add: finv_def)
  with all have r: "returned (workers ?s2) = nat K" by (simp add: returned_all)
  have "mpc (mainStep K ?s2) = Past"
  proof (cases "mpc ?s2")
    case (Spawning t)
    with n2 show ?thesis by simp
  next
    case (Joining t)
    with i2 r have "t = int (nat K)" by (simp add: finv_def)
    then have "\<not> t < K" by simp
    with Joining show ?thesis by (simp add: mainStep_def)
  next
    case Past
    then show ?thesis by (simp add: mainStep_def)
  qed
  then show ?thesis by (simp add: one_by_one_def frun_append frun_Cons frun_Nil)
qed

lemma reps_add: "reps (a + b) es = reps a es @ reps b es"
  by (simp add: reps_def replicate_add)

lemma wlog_prefix:
  assumes "wok n pc"
  shows "prefix (wlog n tid pc) (reps (nat n) [ReadCall tid, FinishOpCall tid] @ [Signal tid])"
proof (cases pc)
  case (AtLoop i)
  with assms have "nat n = nat i + (nat n - nat i)" by (auto simp: wok_def)
  then have "reps (nat n) [ReadCall tid, FinishOpCall tid] =
      reps (nat i) [ReadCall tid, FinishOpCall tid] @
      reps (nat n - nat i) [ReadCall tid, FinishOpCall tid]"
    by (metis reps_add)
  with AtLoop show ?thesis by (simp add: wlog_def)
next
  case (AfterRead i)
  with assms have "nat n = nat i + Suc (nat n - nat i - 1)" by (auto simp: wok_def)
  then have "reps (nat n) [ReadCall tid, FinishOpCall tid] =
      reps (nat i) [ReadCall tid, FinishOpCall tid] @
      reps (Suc (nat n - nat i - 1)) [ReadCall tid, FinishOpCall tid]"
    by (metis reps_add)
  with AfterRead show ?thesis by (simp add: wlog_def reps_def)
next
  case AtSend
  then show ?thesis by (simp add: wlog_def)
next
  case WorkerReturned
  then show ?thesis by (simp add: wlog_def)
qed

lemma history_prefix:
  assumes "finv par n s"
  shows "prefix (filter (of_worker tid) (ftrace s))
           (reps (nat n) [ReadCall tid, FinishOpCall tid] @ [Signal tid])"
proof (cases "0 \<le> tid \<and> tid < int (length (workers s))")
  case True
  then have j: "nat tid < length (workers s)" "int (nat tid) = tid" by linarith+
  from assms have "\<forall>j < length (workers s). wok n (snd (workers s ! j)) \<and>
      filter (of_worker (int j)) (ftrace s) = wlog n (int j) (snd (workers s ! j))"
    by (simp add: finv_def)
  with j(1) have "wok n (snd (workers s ! nat tid)) \<and>
      filter (of_worker (int (nat tid))) (ftrace s) =
        wlog n (int (nat tid)) (snd (workers s ! nat tid))"
    by blast
  with wlog_prefix [of n "snd (workers s ! nat tid)" tid] show ?thesis
    by (simp only: j(2))
next
  case False
  with assms have "filter (of_worker tid) (ftrace s) = []" by (simp add: finv_def)
  then show ?thesis by simp
qed

text \<open>
  Claim C3. For \<open>K \<ge> 1\<close> and every schedule: the workers started so far carry the ids
  0, 1, 2, ... in start order; while \<^verbatim>\<open>main\<close> spawns there are as many as its loop
  counter says, and once it has left the spawning loop there are exactly \<open>K\<close>. The number
  of completion signals received is 0 while \<^verbatim>\<open>main\<close> spawns, equals the counter of the
  joining loop while it joins, and is \<open>K\<close> once it is past the join. At every moment the
  history of a worker is an initial part of its full run of iterations followed by its one
  signal. When \<^verbatim>\<open>main\<close> is past the join, exactly the workers 0 to \<open>K - 1\<close> were
  spawned, all of them have returned, and the history of each is its full run followed by
  its signal. And \<^verbatim>\<open>main\<close> does get past the join: from whatever state the schedule
  has led to, letting \<^verbatim>\<open>main\<close> and then each worker run (\<open>one_by_one\<close>) takes it there.
\<close>

theorem fanout_join:
  assumes "1 \<le> K"
  shows "map fst (workers (frun K n sched finit)) =
           map int [0..<length (workers (frun K n sched finit))]
       \<and> filter is_spawned (ftrace (frun K n sched finit)) =
           map (\<lambda>j. Spawned (int j)) [0..<length (workers (frun K n sched finit))]
       \<and> int (length (workers (frun K n sched finit))) \<le> K
       \<and> int (length (workers (frun K n sched finit))) =
           (case mpc (frun K n sched finit) of
              Spawning t \<Rightarrow> t | Joining t \<Rightarrow> K | Past \<Rightarrow> K)
       \<and> int (length (filter is_signal (ftrace (frun K n sched finit)))) =
           (case mpc (frun K n sched finit) of
              Spawning t \<Rightarrow> 0 | Joining t \<Rightarrow> t | Past \<Rightarrow> K)
       \<and> (\<forall>tid. prefix (filter (of_worker tid) (ftrace (frun K n sched finit)))
                   (reps (nat n) [ReadCall tid, FinishOpCall tid] @ [Signal tid]))
       \<and> (mpc (frun K n sched finit) = Past \<longrightarrow>
            int (length (workers (frun K n sched finit))) = K \<and>
            filter is_spawned (ftrace (frun K n sched finit)) =
              map (\<lambda>j. Spawned (int j)) [0..<nat K] \<and>
            (\<forall>w \<in> set (workers (frun K n sched finit)). snd w = WorkerReturned) \<and>
            (\<forall>tid. 0 \<le> tid \<and> tid < K \<longrightarrow>
               filter (of_worker tid) (ftrace (frun K n sched finit)) =
                 reps (nat n) [ReadCall tid, FinishOpCall tid] @ [Signal tid]))
       \<and> mpc (frun K n (sched @ one_by_one K n) finit) = Past"
proof -
  let ?s = "frun K n sched finit"
  have inv: "finv K n ?s" by (simp add: finv_run finv_init)
  have ids: "map fst (workers ?s) = map int [0..<length (workers ?s)]"
    using inv by (simp add: finv_def)
  have sp: "filter is_spawned (ftrace ?s) = map (\<lambda>j. Spawned (int j)) [0..<length (workers ?s)]"
    using inv by (simp add: finv_def)
  from inv have "length (workers ?s) \<le> nat K" by (simp add: finv_def)
  with assms have len: "int (length (workers ?s)) \<le> K" by linarith
  from inv have s1: "length (filter is_signal (ftrace ?s)) = returned (workers ?s)"
    and s2: "case mpc ?s of
        Spawning t \<Rightarrow> t = int (length (workers ?s)) \<and> returned (workers ?s) = 0
      | Joining t \<Rightarrow> length (workers ?s) = nat K \<and> t = int (returned (workers ?s))
      | Past \<Rightarrow> length (workers ?s) = nat K \<and> returned (workers ?s) = nat K"
    by (simp_all add: finv_def)
  have count: "int (length (workers ?s)) =
      (case mpc ?s of Spawning t \<Rightarrow> t | Joining t \<Rightarrow> K | Past \<Rightarrow> K)"
    using s2 assms by (cases "mpc ?s") simp_all
  have sigs: "int (length (filter is_signal (ftrace ?s))) =
      (case mpc ?s of Spawning t \<Rightarrow> 0 | Joining t \<Rightarrow> t | Past \<Rightarrow> K)"
    using s1 s2 assms by (cases "mpc ?s") simp_all
  have hist: "\<forall>tid. prefix (filter (of_worker tid) (ftrace ?s))
      (reps (nat n) [ReadCall tid, FinishOpCall tid] @ [Signal tid])"
    using history_prefix [OF inv] by blast
  have past: "int (length (workers ?s)) = K \<and>
      filter is_spawned (ftrace ?s) = map (\<lambda>j. Spawned (int j)) [0..<nat K] \<and>
      (\<forall>w \<in> set (workers ?s). snd w = WorkerReturned) \<and>
      (\<forall>tid. 0 \<le> tid \<and> tid < K \<longrightarrow>
         filter (of_worker tid) (ftrace ?s) =
           reps (nat n) [ReadCall tid, FinishOpCall tid] @ [Signal tid])"
    if p: "mpc ?s = Past"
  proof -
    from inv p have l: "length (workers ?s) = nat K" and r: "returned (workers ?s) = nat K"
      by (simp_all add: finv_def)
    from l r have all: "snd w = WorkerReturned" if "w \<in> set (workers ?s)" for w
      using that by (intro all_returned [of "workers ?s"]) simp_all
    have proj: "filter (of_worker tid) (ftrace ?s) =
        reps (nat n) [ReadCall tid, FinishOpCall tid] @ [Signal tid]"
      if t: "0 \<le> tid \<and> tid < K" for tid
    proof -
      from t l have j: "nat tid < length (workers ?s)" by simp
      then have w: "snd (workers ?s ! nat tid) = WorkerReturned" by (intro all) simp
      from inv have "\<forall>j < length (workers ?s).
          filter (of_worker (int j)) (ftrace ?s) = wlog n (int j) (snd (workers ?s ! j))"
        by (simp add: finv_def)
      with j have "filter (of_worker (int (nat tid))) (ftrace ?s) =
          wlog n (int (nat tid)) (snd (workers ?s ! nat tid))" by blast
      with w t show ?thesis by (simp add: wlog_def)
    qed
    from inv l have "filter is_spawned (ftrace ?s) = map (\<lambda>j. Spawned (int j)) [0..<nat K]"
      by (simp add: finv_def)
    with l assms all proj show ?thesis by simp
  qed
  have live: "mpc (frun K n (sched @ one_by_one K n) finit) = Past"
    using join_completes [OF inv] by (simp add: frun_append)
  from ids sp len count sigs hist past live show ?thesis by blast
qed

theorem fanout_join_witness:
  "mpc (frun 2 1000 (one_by_one 2 1000) finit) = Past \<and>
   map fst (workers (frun 2 1000 (one_by_one 2 1000) finit)) = [0, 1] \<and>
   filter is_spawned (ftrace (frun 2 1000 (one_by_one 2 1000) finit)) = [Spawned 0, Spawned 1] \<and>
   length (filter is_signal (ftrace (frun 2 1000 (one_by_one 2 1000) finit))) = 2 \<and>
   filter (of_worker 0) (ftrace (frun 2 1000 (one_by_one 2 1000) finit)) =
     reps 1000 [ReadCall 0, FinishOpCall 0] @ [Signal 0] \<and>
   filter (of_worker 1) (ftrace (frun 2 1000 (one_by_one 2 1000) finit)) =
     reps 1000 [ReadCall 1, FinishOpCall 1] @ [Signal 1]"
proof -
  have k: "(1::int) \<le> 2" by simp
  from fanout_join [OF k, of 1000 "[]"]
  have p: "mpc (frun 2 1000 (one_by_one 2 1000) finit) = Past" by simp
  have u: "[0..<2] = [0, 1]" by (simp add: upt_rec)
  from fanout_join [OF k, of 1000 "one_by_one 2 1000"] p show ?thesis
    by (simp add: u)
qed

subsection \<open>The two views of a worker agree\<close>

lemma worker_views_agree:
  assumes "mpc (frun K (int64 (1000 * kiters)) sched finit) = Past" "0 \<le> tid" "tid < K"
  shows "List.map_filter (wview c)
           (filter (of_worker tid) (ftrace (frun K (int64 (1000 * kiters)) sched finit))) =
         worker_trace kiters c tid"
proof -
  let ?n = "int64 (1000 * kiters)"
  let ?s = "frun K ?n sched finit"
  have inv: "finv K ?n ?s" by (simp add: finv_run finv_init)
  with assms(1) have l: "length (workers ?s) = nat K" and r: "returned (workers ?s) = nat K"
    by (simp_all add: finv_def)
  from assms l have j: "nat tid < length (workers ?s)" by simp
  with l r have w: "snd (workers ?s ! nat tid) = WorkerReturned"
    by (intro all_returned [of "workers ?s"]) simp_all
  from inv have "\<forall>j < length (workers ?s).
      filter (of_worker (int j)) (ftrace ?s) = wlog ?n (int j) (snd (workers ?s ! j))"
    by (simp add: finv_def)
  with j have "filter (of_worker (int (nat tid))) (ftrace ?s) =
      wlog ?n (int (nat tid)) (snd (workers ?s ! nat tid))" by blast
  with w assms(2) have "filter (of_worker tid) (ftrace ?s) =
      reps (nat ?n) [ReadCall tid, FinishOpCall tid] @ [Signal tid]"
    by (simp add: wlog_def)
  then show ?thesis
    by (simp add: worker_trace_def map_filter_app map_filter_reps List.map_filter_simps)
qed

end
